theory Spec2Isabelle
  imports Complex_Main
begin

section \<open>PageRank and topic-specific PageRank: the embedded programs\<close>

text \<open>
  The two programs embedded here are \<^verbatim>\<open>IR/Assignment2/pr.py\<close> (\<^verbatim>\<open>page_rank\<close>) and
  \<^verbatim>\<open>IR/Assignment5/topic_pagerank.py\<close> (\<^verbatim>\<open>build_incoming_links\<close>,
  \<^verbatim>\<open>build_topic_vector\<close>, \<^verbatim>\<open>topic_pagerank\<close>).

  Conventions of the embedding:
  \<^item> a Python \<^verbatim>\<open>dict\<close> is an association list in insertion order; the keys of a
    dictionary are distinct, which the theorems assume of the dictionaries they are given;
  \<^item> Python floats are modelled twice: first by \<^typ>\<open>real\<close> with exact arithmetic, which is
    what the properties of the algorithm are proved about; then, for the two solvers, with
    every arithmetic operation rounded to the nearest double, which is what decides the
    claims that depend on rounding. Overflow and NaN are outside both models;
  \<^item> a raised exception is the \<open>Inl\<close> branch of a sum type;
  \<^item> \<^verbatim>\<open>topic_pagerank\<close> mutates the dictionary \<^verbatim>\<open>graph\<close> it is given (through
    \<^verbatim>\<open>build_incoming_links\<close>), so its model returns the final graph next to the outcome;
  \<^item> \<^verbatim>\<open>print\<close> calls are not modelled.
\<close>

subsection \<open>Python dictionaries\<close>

datatype error = KeyError | RuntimeError

type_synonym ('k, 'v) dict = "('k \<times> 'v) list"
type_synonym 'n graph = "('n, 'n list) dict"
type_synonym 'n ranks = "('n, real) dict"

text \<open>\<^verbatim>\<open>list(d.keys())\<close> and \<^verbatim>\<open>d.values()\<close>.\<close>

definition dict_keys :: "('k, 'v) dict \<Rightarrow> 'k list" where
  "dict_keys d = map fst d"

definition dict_values :: "('k, 'v) dict \<Rightarrow> 'v list" where
  "dict_values d = map snd d"

text \<open>\<^verbatim>\<open>d.get(k, dflt)\<close>.\<close>

definition dict_get :: "('k, 'v) dict \<Rightarrow> 'k \<Rightarrow> 'v \<Rightarrow> 'v" where
  "dict_get d k dflt = (case map_of d k of None \<Rightarrow> dflt | Some v \<Rightarrow> v)"

text \<open>\<^verbatim>\<open>d[k]\<close>, which raises \<^verbatim>\<open>KeyError\<close> on a missing key.\<close>

definition dict_getitem :: "('k, 'v) dict \<Rightarrow> 'k \<Rightarrow> error + 'v" where
  "dict_getitem d k = (case map_of d k of None \<Rightarrow> Inl KeyError | Some v \<Rightarrow> Inr v)"

text \<open>\<^verbatim>\<open>d[k] = v\<close>: an existing key keeps its position, a new key goes last.\<close>

fun dict_setitem :: "('k, 'v) dict \<Rightarrow> 'k \<Rightarrow> 'v \<Rightarrow> ('k, 'v) dict" where
  "dict_setitem [] k v = [(k, v)]"
| "dict_setitem ((k', v') # d) k v =
     (if k' = k then (k', v) # d else (k', v') # dict_setitem d k v)"

text \<open>\<^verbatim>\<open>d.setdefault(k, v)\<close>, for the effect on \<^verbatim>\<open>d\<close>.\<close>

definition dict_setdefault :: "('k, 'v) dict \<Rightarrow> 'k \<Rightarrow> 'v \<Rightarrow> ('k, 'v) dict" where
  "dict_setdefault d k v = (if k \<in> set (dict_keys d) then d else d @ [(k, v)])"

text \<open>\<^verbatim>\<open>d[k] += x\<close>: reads \<^verbatim>\<open>d[k]\<close> (\<^verbatim>\<open>KeyError\<close> when missing), then stores the sum.\<close>

definition dict_iadd :: "('k, real) dict \<Rightarrow> 'k \<Rightarrow> real \<Rightarrow> error + ('k, real) dict" where
  "dict_iadd d k x =
     (case dict_getitem d k of Inl e \<Rightarrow> Inl e | Inr v \<Rightarrow> Inr (dict_setitem d k (v + x)))"

text \<open>
  \<^verbatim>\<open>sum(f(x) for x in xs)\<close> where evaluating \<^verbatim>\<open>f(x)\<close> may raise: Python's \<^verbatim>\<open>sum\<close>
  starts at 0 and adds from the left; the first exception ends it.
\<close>

fun sum_gen :: "('a \<Rightarrow> error + real) \<Rightarrow> 'a list \<Rightarrow> real \<Rightarrow> error + real" where
  "sum_gen f [] acc = Inr acc"
| "sum_gen f (x # xs) acc =
     (case f x of Inl e \<Rightarrow> Inl e | Inr v \<Rightarrow> sum_gen f xs (acc + v))"

text \<open>\<^verbatim>\<open>{k: f(k) for k in ks}\<close> for distinct keys \<^verbatim>\<open>ks\<close>, where \<^verbatim>\<open>f(k)\<close> may raise.\<close>

fun dict_comp :: "('k \<Rightarrow> error + 'v) \<Rightarrow> 'k list \<Rightarrow> error + ('k, 'v) dict" where
  "dict_comp f [] = Inr []"
| "dict_comp f (k # ks) =
     (case f k of Inl e \<Rightarrow> Inl e
      | Inr v \<Rightarrow> (case dict_comp f ks of Inl e \<Rightarrow> Inl e | Inr d \<Rightarrow> Inr ((k, v) # d)))"

subsection \<open>\<^verbatim>\<open>build_incoming_links\<close> (topic_pagerank.py, lines 48-68)\<close>

text \<open>
  \<^verbatim>\<open>incoming[dst].append(src)\<close>: the list stored under \<^verbatim>\<open>dst\<close> grows in place.
  It is only called when \<^verbatim>\<open>dst\<close> is a key of \<^verbatim>\<open>incoming\<close>.
\<close>

definition append_at :: "('n, 'n list) dict \<Rightarrow> 'n \<Rightarrow> 'n \<Rightarrow> ('n, 'n list) dict" where
  "append_at incoming dst src =
     map (\<lambda>(k, l). (k, if k = dst then l @ [src] else l)) incoming"

text \<open>
  The inner loop \<^verbatim>\<open>for dst in outs\<close>. The state is the pair of the two dictionaries the
  loop mutates, \<^verbatim>\<open>graph\<close> and \<^verbatim>\<open>incoming\<close>. A destination that is no key of
  \<^verbatim>\<open>incoming\<close> is added to both (lines 62-66).
\<close>

fun scan_outs :: "'n \<Rightarrow> 'n list \<Rightarrow> 'n graph \<times> ('n, 'n list) dict
    \<Rightarrow> 'n graph \<times> ('n, 'n list) dict" where
  "scan_outs src [] (graph, incoming) = (graph, incoming)"
| "scan_outs src (dst # outs) (graph, incoming) =
     (if dst \<in> set (dict_keys incoming)
      then scan_outs src outs (graph, append_at incoming dst src)
      else scan_outs src outs
             (dict_setdefault graph dst [],
              append_at (dict_setdefault incoming dst []) dst src))"

text \<open>
  The outer loop \<^verbatim>\<open>for src, outs in graph.items()\<close> runs over the live dictionary.
  Each time the iterator is asked for the next item (also when none is left) CPython first
  compares the dictionary's size with the size at the start of the loop, \<open>used\<close>, and
  raises \<^verbatim>\<open>RuntimeError\<close> ("dictionary changed size during iteration") when they differ.
  The loop body only ever appends new keys, so until that check fails the items seen are
  those of the graph at the start, in order: \<open>items\<close> is the part of them not yet visited.
\<close>

fun scan_items :: "nat \<Rightarrow> ('n \<times> 'n list) list \<Rightarrow> 'n graph \<times> ('n, 'n list) dict
    \<Rightarrow> 'n graph \<times> (error + ('n, 'n list) dict)" where
  "scan_items used [] (graph, incoming) =
     (if length graph \<noteq> used then (graph, Inl RuntimeError) else (graph, Inr incoming))"
| "scan_items used ((src, outs) # items) (graph, incoming) =
     (if length graph \<noteq> used then (graph, Inl RuntimeError)
      else scan_items used items (scan_outs src outs (graph, incoming)))"

text \<open>
  The function returns the graph as it leaves it, and either the exception or the pair
  \<^verbatim>\<open>(incoming, list(graph.keys()))\<close>.
\<close>

definition build_incoming_links :: "'n graph
    \<Rightarrow> 'n graph \<times> (error + ('n, 'n list) dict \<times> 'n list)" where
  "build_incoming_links graph =
     (let nodes = dict_keys graph;
          incoming = map (\<lambda>n. (n, [])) nodes
      in case scan_items (length graph) graph (graph, incoming) of
           (graph', Inl e) \<Rightarrow> (graph', Inl e)
         | (graph', Inr incoming') \<Rightarrow> (graph', Inr (incoming', dict_keys graph')))"

subsection \<open>\<^verbatim>\<open>topic_pagerank\<close> (topic_pagerank.py, lines 95-139)\<close>

text \<open>Line 109: \<^verbatim>\<open>sum(ranks[n] for n, d in out_degree.items() if d == 0)\<close>.\<close>

definition dangling_sum :: "'n ranks \<Rightarrow> ('n, nat) dict \<Rightarrow> error + real" where
  "dangling_sum ranks out_degree =
     sum_gen (\<lambda>(n, d). dict_getitem ranks n) (filter (\<lambda>(n, d). d = 0) out_degree) 0"

text \<open>
  Lines 112-113: starting from the empty dictionary, every \<^verbatim>\<open>p\<close> of the (distinct)
  \<^verbatim>\<open>nodes\<close> is assigned its teleportation base.
\<close>

definition teleport_base :: "'n list \<Rightarrow> 'n ranks \<Rightarrow> real \<Rightarrow> 'n ranks" where
  "teleport_base nodes topic_vector damping =
     map (\<lambda>p. (p, (1 - damping) * dict_get topic_vector p 0)) nodes"

text \<open>
  Lines 120-124: the loop over \<^verbatim>\<open>incoming.get(p, [])\<close> that accumulates
  \<^verbatim>\<open>rank_sum\<close>. The division is guarded by \<^verbatim>\<open>dq > 0\<close>.
\<close>

fun rank_sum :: "'n ranks \<Rightarrow> ('n, nat) dict \<Rightarrow> 'n list \<Rightarrow> real \<Rightarrow> error + real" where
  "rank_sum ranks out_degree [] acc = Inr acc"
| "rank_sum ranks out_degree (q # qs) acc =
     (let dq = dict_get out_degree q 0
      in if dq > 0
         then (case dict_getitem ranks q of
                 Inl e \<Rightarrow> Inl e
               | Inr r \<Rightarrow> rank_sum ranks out_degree qs (acc + r / real dq))
         else rank_sum ranks out_degree qs acc)"

text \<open>Lines 119-126: the loop \<^verbatim>\<open>for p in nodes\<close> that adds the link and dangling parts.\<close>

fun add_contributions :: "'n ranks \<Rightarrow> ('n, nat) dict \<Rightarrow> ('n, 'n list) dict \<Rightarrow> 'n ranks
    \<Rightarrow> real \<Rightarrow> real \<Rightarrow> 'n list \<Rightarrow> 'n ranks \<Rightarrow> error + 'n ranks" where
  "add_contributions ranks out_degree incoming topic_vector damping dsum [] new_ranks =
     Inr new_ranks"
| "add_contributions ranks out_degree incoming topic_vector damping dsum (p # ps) new_ranks =
     (case rank_sum ranks out_degree (dict_get incoming p []) 0 of
        Inl e \<Rightarrow> Inl e
      | Inr rs \<Rightarrow>
          (case dict_iadd new_ranks p (damping * (rs + dsum * dict_get topic_vector p 0)) of
             Inl e \<Rightarrow> Inl e
           | Inr new_ranks' \<Rightarrow>
               add_contributions ranks out_degree incoming topic_vector damping dsum
                 ps new_ranks'))"

text \<open>Line 129 (and pr.py line 48): one summand \<^verbatim>\<open>abs(new_ranks[n] - ranks[n])\<close>.\<close>

definition abs_change :: "'n ranks \<Rightarrow> 'n ranks \<Rightarrow> 'n \<Rightarrow> error + real" where
  "abs_change new_ranks ranks n =
     (case dict_getitem new_ranks n of
        Inl e \<Rightarrow> Inl e
      | Inr a \<Rightarrow> (case dict_getitem ranks n of Inl e \<Rightarrow> Inl e | Inr b \<Rightarrow> Inr \<bar>a - b\<bar>))"

text \<open>
  Lines 108-129: the body of one iteration, up to the computation of \<^verbatim>\<open>diff\<close>.
  \<^verbatim>\<open>nodes\<close> and \<^verbatim>\<open>out_degree\<close> were computed once, before the loop.
\<close>

definition topic_iteration :: "'n list \<Rightarrow> ('n, nat) dict \<Rightarrow> 'n ranks \<Rightarrow> real
    \<Rightarrow> 'n graph \<Rightarrow> 'n ranks \<Rightarrow> 'n graph \<times> (error + 'n ranks \<times> real)" where
  "topic_iteration nodes out_degree topic_vector damping graph ranks =
     (case dangling_sum ranks out_degree of
        Inl e \<Rightarrow> (graph, Inl e)
      | Inr dsum \<Rightarrow>
          (let new_ranks = teleport_base nodes topic_vector damping
           in case build_incoming_links graph of
                (graph', Inl e) \<Rightarrow> (graph', Inl e)
              | (graph', Inr (incoming, _)) \<Rightarrow>
                  (case add_contributions ranks out_degree incoming topic_vector damping dsum
                          nodes new_ranks of
                     Inl e \<Rightarrow> (graph', Inl e)
                   | Inr new_ranks' \<Rightarrow>
                       (case sum_gen (abs_change new_ranks' ranks) nodes 0 of
                          Inl e \<Rightarrow> (graph', Inl e)
                        | Inr diff \<Rightarrow> (graph', Inr (new_ranks', diff))))))"

text \<open>
  Lines 107-132: \<^verbatim>\<open>for i in range(max_iter)\<close> with its \<^verbatim>\<open>break\<close>; the first argument
  counts the iterations still allowed.
\<close>

fun topic_loop :: "nat \<Rightarrow> 'n list \<Rightarrow> ('n, nat) dict \<Rightarrow> 'n ranks \<Rightarrow> real \<Rightarrow> real
    \<Rightarrow> 'n graph \<Rightarrow> 'n ranks \<Rightarrow> 'n graph \<times> (error + 'n ranks)" where
  "topic_loop 0 nodes out_degree topic_vector damping tol graph ranks = (graph, Inr ranks)"
| "topic_loop (Suc k) nodes out_degree topic_vector damping tol graph ranks =
     (case topic_iteration nodes out_degree topic_vector damping graph ranks of
        (graph', Inl e) \<Rightarrow> (graph', Inl e)
      | (graph', Inr (new_ranks, diff)) \<Rightarrow>
          (if diff < tol then (graph', Inr new_ranks)
           else topic_loop k nodes out_degree topic_vector damping tol graph' new_ranks))"

text \<open>
  Lines 135-137: the final normalisation. \<^verbatim>\<open>ranks[n]\<close> for \<^verbatim>\<open>n in ranks\<close> is the value
  stored under \<^verbatim>\<open>n\<close>; the division is guarded by \<^verbatim>\<open>s > 0\<close>.
\<close>

definition normalize_ranks :: "'n ranks \<Rightarrow> 'n ranks" where
  "normalize_ranks ranks =
     (let s = sum_list (dict_values ranks)
      in if s > 0 then map (\<lambda>(n, r). (n, r / s)) ranks else ranks)"

text \<open>
  Lines 100-105: \<^verbatim>\<open>1.0 / N\<close> is evaluated once per element of \<^verbatim>\<open>nodes\<close>, so never with
  \<^verbatim>\<open>N = 0\<close>. The parameter \<^verbatim>\<open>pages\<close> is not used by the function. \<^verbatim>\<open>range(max_iter)\<close>
  is empty for a negative \<^verbatim>\<open>max_iter\<close>.
\<close>

definition init_ranks :: "'n list \<Rightarrow> 'n ranks" where
  "init_ranks nodes = map (\<lambda>n. (n, 1 / real (length nodes))) nodes"

definition out_degrees :: "'n graph \<Rightarrow> 'n list \<Rightarrow> ('n, nat) dict" where
  "out_degrees graph nodes = map (\<lambda>n. (n, length (dict_get graph n []))) nodes"

definition topic_pagerank :: "'n graph \<Rightarrow> 'p \<Rightarrow> 'n ranks \<Rightarrow> real \<Rightarrow> real \<Rightarrow> int
    \<Rightarrow> 'n graph \<times> (error + 'n ranks)" where
  "topic_pagerank graph pages topic_vector damping tol max_iter =
     (let nodes = dict_keys graph;
          ranks = init_ranks nodes;
          out_degree = out_degrees graph nodes
      in case topic_loop (nat max_iter) nodes out_degree topic_vector damping tol graph ranks of
           (graph', Inl e) \<Rightarrow> (graph', Inl e)
         | (graph', Inr ranks') \<Rightarrow> (graph', Inr (normalize_ranks ranks')))"

subsection \<open>\<^verbatim>\<open>page_rank\<close> (pr.py, lines 5-60)\<close>

text \<open>
  Lines 39-40 and 44-45: \<^verbatim>\<open>for t in targets: new_ranks[t] += x\<close>. A target that is
  no key of \<^verbatim>\<open>new_ranks\<close> raises \<^verbatim>\<open>KeyError\<close>.
\<close>

fun add_share :: "real \<Rightarrow> 'n list \<Rightarrow> 'n ranks \<Rightarrow> error + 'n ranks" where
  "add_share x [] new_ranks = Inr new_ranks"
| "add_share x (t # targets) new_ranks =
     (case dict_iadd new_ranks t x of
        Inl e \<Rightarrow> Inl e
      | Inr new_ranks' \<Rightarrow> add_share x targets new_ranks')"

text \<open>
  Lines 35-45: the loop \<^verbatim>\<open>for page, links in graph.items()\<close>. \<^verbatim>\<open>page_rank\<close> never
  changes \<^verbatim>\<open>graph\<close>. The divisions are by \<^verbatim>\<open>len(links)\<close> for a non-empty list and by
  \<^verbatim>\<open>num_pages\<close> inside a loop over the pages, so by positive numbers.
\<close>

fun distribute :: "real \<Rightarrow> 'n graph \<Rightarrow> 'n ranks \<Rightarrow> ('n \<times> 'n list) list \<Rightarrow> 'n ranks
    \<Rightarrow> error + 'n ranks" where
  "distribute damping_factor graph ranks [] new_ranks = Inr new_ranks"
| "distribute damping_factor graph ranks ((page, links) # items) new_ranks =
     (case (if links \<noteq> []
            then (case dict_getitem ranks page of
                    Inl e \<Rightarrow> Inl e
                  | Inr r \<Rightarrow>
                      add_share (damping_factor * (r / real (length links))) links new_ranks)
            else (case dict_getitem ranks page of
                    Inl e \<Rightarrow> Inl e
                  | Inr r \<Rightarrow>
                      add_share (damping_factor * (r / real (length graph))) (dict_keys graph)
                        new_ranks)) of
        Inl e \<Rightarrow> Inl e
      | Inr new_ranks' \<Rightarrow> distribute damping_factor graph ranks items new_ranks')"

text \<open>Lines 26-48: one iteration, up to the computation of \<^verbatim>\<open>total_diff\<close>.\<close>

definition page_iteration :: "real \<Rightarrow> 'n graph \<Rightarrow> 'n ranks \<Rightarrow> error + 'n ranks \<times> real" where
  "page_iteration damping_factor graph ranks =
     (let num_pages = length graph;
          new_ranks = map (\<lambda>page. (page, (1 - damping_factor) / real num_pages)) (dict_keys graph)
      in case distribute damping_factor graph ranks graph new_ranks of
           Inl e \<Rightarrow> Inl e
         | Inr new_ranks' \<Rightarrow>
             (case sum_gen (abs_change new_ranks' ranks) (dict_keys graph) 0 of
                Inl e \<Rightarrow> Inl e
              | Inr total_diff \<Rightarrow> Inr (new_ranks', total_diff)))"

text \<open>Lines 25-58: \<^verbatim>\<open>for iteration in range(max_iterations)\<close> with its \<^verbatim>\<open>break\<close>.\<close>

fun page_loop :: "nat \<Rightarrow> real \<Rightarrow> real \<Rightarrow> 'n graph \<Rightarrow> 'n ranks \<Rightarrow> error + 'n ranks" where
  "page_loop 0 damping_factor tolerance graph ranks = Inr ranks"
| "page_loop (Suc k) damping_factor tolerance graph ranks =
     (case page_iteration damping_factor graph ranks of
        Inl e \<Rightarrow> Inl e
      | Inr (new_ranks, total_diff) \<Rightarrow>
          (if total_diff < tolerance then Inr new_ranks
           else page_loop k damping_factor tolerance graph new_ranks))"

text \<open>Lines 20-60. The ranks are returned as the loop leaves them.\<close>

definition page_rank :: "'n graph \<Rightarrow> real \<Rightarrow> int \<Rightarrow> real \<Rightarrow> error + 'n ranks" where
  "page_rank graph damping_factor max_iterations tolerance =
     (let ranks = init_ranks (dict_keys graph)
      in page_loop (nat max_iterations) damping_factor tolerance graph ranks)"

subsection \<open>\<^verbatim>\<open>build_topic_vector\<close> (topic_pagerank.py, lines 71-92)\<close>

text \<open>
  Texts are byte strings here, and \<^verbatim>\<open>str.lower\<close> is modelled on the ASCII letters only.
\<close>

definition lower_chr :: "char \<Rightarrow> char" where
  "lower_chr c =
     (let n = (of_char c :: nat) in if 65 \<le> n \<and> n \<le> 90 then char_of (n + 32) else c)"

definition lower_str :: "string \<Rightarrow> string" where
  "lower_str s = map lower_chr s"

fun starts_with :: "string \<Rightarrow> string \<Rightarrow> bool" where
  "starts_with text [] = True"
| "starts_with [] (c # k) = False"
| "starts_with (t # text) (c # k) = (t = c \<and> starts_with text k)"

text \<open>\<^verbatim>\<open>k in text\<close> for strings: \<^verbatim>\<open>k\<close> occurs in \<^verbatim>\<open>text\<close> as a contiguous substring.\<close>

fun contains :: "string \<Rightarrow> string \<Rightarrow> bool" where
  "contains k [] = (k = [])"
| "contains k (t # text) = (starts_with (t # text) k \<or> contains k text)"

text \<open>Lines 82-84: the weight 1.0 or 0.0 of one page.\<close>

definition page_weight :: "string list \<Rightarrow> (string, string) dict \<Rightarrow> real" where
  "page_weight kws meta =
     (let text = lower_str (dict_get meta ''title'' [] @ '' '' @ dict_get meta ''content'' []);
          match = list_ex (\<lambda>k. contains k text) kws
      in if match then 1 else 0)"

text \<open>
  Lines 81-85: the loop over \<^verbatim>\<open>pages.items()\<close>; the state is \<^verbatim>\<open>(v, total)\<close>, with \<open>tot\<close> for \<^verbatim>\<open>total\<close>.
  \<^verbatim>\<open>total += v[pid]\<close> reads the value just stored.
\<close>

fun score_pages :: "string list \<Rightarrow> ('p \<times> (string, string) dict) list
    \<Rightarrow> ('p, real) dict \<times> real \<Rightarrow> ('p, real) dict \<times> real" where
  "score_pages kws [] (v, tot) = (v, tot)"
| "score_pages kws ((pid, meta) # items) (v, tot) =
     (let w = page_weight kws meta
      in score_pages kws items (dict_setitem v pid w, tot + w))"

text \<open>
  Lines 77-92. \<^verbatim>\<open>1.0 / n\<close> is evaluated once per page, so never with \<^verbatim>\<open>n = 0\<close>, and
  \<^verbatim>\<open>v[pid] / total\<close> only when \<^verbatim>\<open>total\<close> is not zero.
\<close>

definition build_topic_vector :: "('p, (string, string) dict) dict \<Rightarrow> string list
    \<Rightarrow> error + ('p, real) dict" where
  "build_topic_vector pages topic_keywords =
     (let kws = map lower_str topic_keywords
      in case score_pages kws pages ([], 0) of
           (v, tot) \<Rightarrow>
             if tot = 0
             then (let n = length pages
                   in dict_comp (\<lambda>pid. Inr (1 / real n)) (dict_keys pages))
             else dict_comp (\<lambda>pid. case dict_getitem v pid of
                                      Inl e \<Rightarrow> Inl e
                                    | Inr w \<Rightarrow> Inr (w / tot))
                    (dict_keys pages))"

section \<open>The solvers in double precision\<close>

text \<open>
  The definitions above compute with exact reals. Python's \<^verbatim>\<open>float\<close> is the IEEE 754
  binary64 format: every arithmetic operation returns the exact result rounded to the
  nearest double, ties to the even significand. This section repeats the two solvers with a
  rounding function \<open>rnd\<close> applied after every arithmetic operation, in the order in which
  Python evaluates the source expressions. With \<open>rnd\<close> the identity they are the exact
  solvers above; with \<open>rnd = round_double\<close> they compute what the source computes, as long
  as no result leaves the range of the finite doubles (infinities and NaN are not modelled).
  Comparisons and \<^verbatim>\<open>abs\<close> are exact in both.
\<close>

subsection \<open>Rounding to the nearest double\<close>

text \<open>The number of binary digits of a positive integer.\<close>

function bit_length :: "int \<Rightarrow> int" where
  "bit_length n = (if n \<le> 0 then 0 else 1 + bit_length (n div 2))"
  by pat_completeness auto
termination
  by (relation "measure nat") auto

declare bit_length.simps [simp del]

definition pow2 :: "int \<Rightarrow> real" where
  "pow2 e = (if 0 \<le> e then 2 ^ nat e else 1 / 2 ^ nat (- e))"

text \<open>For \<open>a > 0\<close>, the exponent \<open>e\<close> with \<open>2^e \<le> a < 2^(e+1)\<close>.\<close>

definition floor_log2 :: "real \<Rightarrow> int" where
  "floor_log2 a =
     (if 1 \<le> a then bit_length \<lfloor>a\<rfloor> - 1
      else (let k = bit_length \<lfloor>1 / a\<rfloor> - 1
            in if a = pow2 (- k) then - k else - (k + 1)))"

text \<open>Rounding to the nearest integer, a tie going to the even one.\<close>

definition round_half_even :: "real \<Rightarrow> int" where
  "round_half_even x =
     (let f = \<lfloor>x\<rfloor>; d = x - of_int f
      in if d < 1 / 2 then f else if 1 / 2 < d then f + 1 else if even f then f else f + 1)"

text \<open>
  A double has a significand of 53 binary digits and an exponent of at least -1022 (below
  that the spacing of the subnormal numbers stays \<open>2^(-1074)\<close>). The upper end of the range
  is not modelled.
\<close>

definition round_double :: "real \<Rightarrow> real" where
  "round_double x =
     (if x = 0 then 0
      else (let a = \<bar>x\<bar>;
                e = max (floor_log2 a) (- 1022);
                q = pow2 (e - 52)
            in sgn x * of_int (round_half_even (a / q)) * q))"

subsection \<open>\<^verbatim>\<open>topic_pagerank\<close> with rounding\<close>

text \<open>
  \<^verbatim>\<open>d[k] += x\<close> and \<^verbatim>\<open>sum(...)\<close>: each addition is rounded. (From version 3.12,
  CPython's \<^verbatim>\<open>sum\<close> of floats carries a correction term for the rounding errors and adds
  it at the end; on a sum of at most two terms this gives the same double, and the runs
  evaluated below contain no longer sum.)
\<close>

definition dict_iadd_r :: "(real \<Rightarrow> real) \<Rightarrow> ('k, real) dict \<Rightarrow> 'k \<Rightarrow> real
    \<Rightarrow> error + ('k, real) dict" where
  "dict_iadd_r rnd d k x =
     (case dict_getitem d k of
        Inl e \<Rightarrow> Inl e
      | Inr v \<Rightarrow> Inr (dict_setitem d k (rnd (v + x))))"

fun sum_gen_r :: "(real \<Rightarrow> real) \<Rightarrow> ('a \<Rightarrow> error + real) \<Rightarrow> 'a list \<Rightarrow> real
    \<Rightarrow> error + real" where
  "sum_gen_r rnd f [] acc = Inr acc"
| "sum_gen_r rnd f (x # xs) acc =
     (case f x of Inl e \<Rightarrow> Inl e | Inr v \<Rightarrow> sum_gen_r rnd f xs (rnd (acc + v)))"

text \<open>Line 109.\<close>

definition dangling_sum_r :: "(real \<Rightarrow> real) \<Rightarrow> 'n ranks \<Rightarrow> ('n, nat) dict \<Rightarrow> error + real" where
  "dangling_sum_r rnd ranks out_degree =
     sum_gen_r rnd (\<lambda>(n, d). dict_getitem ranks n) (filter (\<lambda>(n, d). d = 0) out_degree) 0"

text \<open>Lines 112-113: \<^verbatim>\<open>(1.0 - damping) * topic_vector.get(p, 0.0)\<close>.\<close>

definition teleport_base_r :: "(real \<Rightarrow> real) \<Rightarrow> 'n list \<Rightarrow> 'n ranks \<Rightarrow> real \<Rightarrow> 'n ranks" where
  "teleport_base_r rnd nodes topic_vector damping =
     map (\<lambda>p. (p, rnd (rnd (1 - damping) * dict_get topic_vector p 0))) nodes"

text \<open>
  Lines 120-124: \<^verbatim>\<open>rank_sum += ranks[q] / dq\<close>; the integer \<^verbatim>\<open>dq\<close> is converted to
  a double for the division.
\<close>

fun rank_sum_r :: "(real \<Rightarrow> real) \<Rightarrow> 'n ranks \<Rightarrow> ('n, nat) dict \<Rightarrow> 'n list \<Rightarrow> real
    \<Rightarrow> error + real" where
  "rank_sum_r rnd ranks out_degree [] acc = Inr acc"
| "rank_sum_r rnd ranks out_degree (q # qs) acc =
     (let dq = dict_get out_degree q 0
      in if dq > 0
         then (case dict_getitem ranks q of
                 Inl e \<Rightarrow> Inl e
               | Inr r \<Rightarrow>
                   rank_sum_r rnd ranks out_degree qs (rnd (acc + rnd (r / rnd (real dq)))))
         else rank_sum_r rnd ranks out_degree qs acc)"

text \<open>
  Lines 119-126:
  \<^verbatim>\<open>new_ranks[p] += damping * (rank_sum + dangling_sum * topic_vector.get(p, 0.0))\<close>.
\<close>

fun add_contributions_r :: "(real \<Rightarrow> real) \<Rightarrow> 'n ranks \<Rightarrow> ('n, nat) dict
    \<Rightarrow> ('n, 'n list) dict \<Rightarrow> 'n ranks \<Rightarrow> real \<Rightarrow> real \<Rightarrow> 'n list \<Rightarrow> 'n ranks
    \<Rightarrow> error + 'n ranks" where
  "add_contributions_r rnd ranks out_degree incoming topic_vector damping dsum [] new_ranks =
     Inr new_ranks"
| "add_contributions_r rnd ranks out_degree incoming topic_vector damping dsum (p # ps)
     new_ranks =
     (case rank_sum_r rnd ranks out_degree (dict_get incoming p []) 0 of
        Inl e \<Rightarrow> Inl e
      | Inr rs \<Rightarrow>
          (case dict_iadd_r rnd new_ranks p
                  (rnd (damping * rnd (rs + rnd (dsum * dict_get topic_vector p 0)))) of
             Inl e \<Rightarrow> Inl e
           | Inr new_ranks' \<Rightarrow>
               add_contributions_r rnd ranks out_degree incoming topic_vector damping dsum
                 ps new_ranks'))"

text \<open>Line 129 (and pr.py line 48): \<^verbatim>\<open>abs(new_ranks[n] - ranks[n])\<close>.\<close>

definition abs_change_r :: "(real \<Rightarrow> real) \<Rightarrow> 'n ranks \<Rightarrow> 'n ranks \<Rightarrow> 'n \<Rightarrow> error + real" where
  "abs_change_r rnd new_ranks ranks n =
     (case dict_getitem new_ranks n of
        Inl e \<Rightarrow> Inl e
      | Inr a \<Rightarrow>
          (case dict_getitem ranks n of Inl e \<Rightarrow> Inl e | Inr b \<Rightarrow> Inr \<bar>rnd (a - b)\<bar>))"

text \<open>Lines 108-129.\<close>

definition topic_iteration_r :: "(real \<Rightarrow> real) \<Rightarrow> 'n list \<Rightarrow> ('n, nat) dict \<Rightarrow> 'n ranks
    \<Rightarrow> real \<Rightarrow> 'n graph \<Rightarrow> 'n ranks \<Rightarrow> 'n graph \<times> (error + 'n ranks \<times> real)" where
  "topic_iteration_r rnd nodes out_degree topic_vector damping graph ranks =
     (case dangling_sum_r rnd ranks out_degree of
        Inl e \<Rightarrow> (graph, Inl e)
      | Inr dsum \<Rightarrow>
          (let new_ranks = teleport_base_r rnd nodes topic_vector damping
           in case build_incoming_links graph of
                (graph', Inl e) \<Rightarrow> (graph', Inl e)
              | (graph', Inr (incoming, _)) \<Rightarrow>
                  (case add_contributions_r rnd ranks out_degree incoming topic_vector damping
                          dsum nodes new_ranks of
                     Inl e \<Rightarrow> (graph', Inl e)
                   | Inr new_ranks' \<Rightarrow>
                       (case sum_gen_r rnd (abs_change_r rnd new_ranks' ranks) nodes 0 of
                          Inl e \<Rightarrow> (graph', Inl e)
                        | Inr diff \<Rightarrow> (graph', Inr (new_ranks', diff))))))"

text \<open>Lines 107-132.\<close>

fun topic_loop_r :: "(real \<Rightarrow> real) \<Rightarrow> nat \<Rightarrow> 'n list \<Rightarrow> ('n, nat) dict \<Rightarrow> 'n ranks
    \<Rightarrow> real \<Rightarrow> real \<Rightarrow> 'n graph \<Rightarrow> 'n ranks \<Rightarrow> 'n graph \<times> (error + 'n ranks)" where
  "topic_loop_r rnd 0 nodes out_degree topic_vector damping tol graph ranks =
     (graph, Inr ranks)"
| "topic_loop_r rnd (Suc k) nodes out_degree topic_vector damping tol graph ranks =
     (case topic_iteration_r rnd nodes out_degree topic_vector damping graph ranks of
        (graph', Inl e) \<Rightarrow> (graph', Inl e)
      | (graph', Inr (new_ranks, diff)) \<Rightarrow>
          (if diff < tol then (graph', Inr new_ranks)
           else topic_loop_r rnd k nodes out_degree topic_vector damping tol graph' new_ranks))"

text \<open>
  Lines 135-137: \<^verbatim>\<open>sum(ranks.values())\<close> adds from the left, starting at 0; then
  \<^verbatim>\<open>ranks[n] / s\<close>.
\<close>

definition normalize_ranks_r :: "(real \<Rightarrow> real) \<Rightarrow> 'n ranks \<Rightarrow> 'n ranks" where
  "normalize_ranks_r rnd ranks =
     (let s = foldl (\<lambda>acc v. rnd (acc + v)) 0 (dict_values ranks)
      in if s > 0 then map (\<lambda>(n, r). (n, rnd (r / s))) ranks else ranks)"

text \<open>Line 104: \<^verbatim>\<open>1.0 / N\<close>, with the integer \<^verbatim>\<open>N\<close> converted to a double.\<close>

definition init_ranks_r :: "(real \<Rightarrow> real) \<Rightarrow> 'n list \<Rightarrow> 'n ranks" where
  "init_ranks_r rnd nodes = map (\<lambda>n. (n, rnd (1 / rnd (real (length nodes))))) nodes"

text \<open>Lines 100-139.\<close>

definition topic_pagerank_r :: "(real \<Rightarrow> real) \<Rightarrow> 'n graph \<Rightarrow> 'p \<Rightarrow> 'n ranks \<Rightarrow> real
    \<Rightarrow> real \<Rightarrow> int \<Rightarrow> 'n graph \<times> (error + 'n ranks)" where
  "topic_pagerank_r rnd graph pages topic_vector damping tol max_iter =
     (let nodes = dict_keys graph;
          ranks = init_ranks_r rnd nodes;
          out_degree = out_degrees graph nodes
      in case topic_loop_r rnd (nat max_iter) nodes out_degree topic_vector damping tol
                graph ranks of
           (graph', Inl e) \<Rightarrow> (graph', Inl e)
         | (graph', Inr ranks') \<Rightarrow> (graph', Inr (normalize_ranks_r rnd ranks')))"

subsection \<open>\<^verbatim>\<open>page_rank\<close> with rounding\<close>

text \<open>pr.py lines 39-40 and 44-45.\<close>

fun add_share_r :: "(real \<Rightarrow> real) \<Rightarrow> real \<Rightarrow> 'n list \<Rightarrow> 'n ranks \<Rightarrow> error + 'n ranks" where
  "add_share_r rnd x [] new_ranks = Inr new_ranks"
| "add_share_r rnd x (t # targets) new_ranks =
     (case dict_iadd_r rnd new_ranks t x of
        Inl e \<Rightarrow> Inl e
      | Inr new_ranks' \<Rightarrow> add_share_r rnd x targets new_ranks')"

text \<open>
  pr.py lines 35-45: \<^verbatim>\<open>share = ranks[page] / len(links)\<close> (or \<^verbatim>\<open>/ num_pages\<close>), then
  \<^verbatim>\<open>new_ranks[...] += damping_factor * share\<close> for every target.
\<close>

fun distribute_r :: "(real \<Rightarrow> real) \<Rightarrow> real \<Rightarrow> 'n graph \<Rightarrow> 'n ranks
    \<Rightarrow> ('n \<times> 'n list) list \<Rightarrow> 'n ranks \<Rightarrow> error + 'n ranks" where
  "distribute_r rnd damping_factor graph ranks [] new_ranks = Inr new_ranks"
| "distribute_r rnd damping_factor graph ranks ((page, links) # items) new_ranks =
     (case (if links \<noteq> []
            then (case dict_getitem ranks page of
                    Inl e \<Rightarrow> Inl e
                  | Inr r \<Rightarrow>
                      add_share_r rnd
                        (rnd (damping_factor * rnd (r / rnd (real (length links)))))
                        links new_ranks)
            else (case dict_getitem ranks page of
                    Inl e \<Rightarrow> Inl e
                  | Inr r \<Rightarrow>
                      add_share_r rnd
                        (rnd (damping_factor * rnd (r / rnd (real (length graph)))))
                        (dict_keys graph) new_ranks)) of
        Inl e \<Rightarrow> Inl e
      | Inr new_ranks' \<Rightarrow> distribute_r rnd damping_factor graph ranks items new_ranks')"

text \<open>pr.py lines 26-48; line 32 is \<^verbatim>\<open>(1 - damping_factor) / num_pages\<close>.\<close>

definition page_iteration_r :: "(real \<Rightarrow> real) \<Rightarrow> real \<Rightarrow> 'n graph \<Rightarrow> 'n ranks
    \<Rightarrow> error + 'n ranks \<times> real" where
  "page_iteration_r rnd damping_factor graph ranks =
     (let num_pages = length graph;
          new_ranks = map (\<lambda>page. (page, rnd (rnd (1 - damping_factor) / rnd (real num_pages))))
                        (dict_keys graph)
      in case distribute_r rnd damping_factor graph ranks graph new_ranks of
           Inl e \<Rightarrow> Inl e
         | Inr new_ranks' \<Rightarrow>
             (case sum_gen_r rnd (abs_change_r rnd new_ranks' ranks) (dict_keys graph) 0 of
                Inl e \<Rightarrow> Inl e
              | Inr total_diff \<Rightarrow> Inr (new_ranks', total_diff)))"

text \<open>pr.py lines 25-58.\<close>

fun page_loop_r :: "(real \<Rightarrow> real) \<Rightarrow> nat \<Rightarrow> real \<Rightarrow> real \<Rightarrow> 'n graph \<Rightarrow> 'n ranks
    \<Rightarrow> error + 'n ranks" where
  "page_loop_r rnd 0 damping_factor tolerance graph ranks = Inr ranks"
| "page_loop_r rnd (Suc k) damping_factor tolerance graph ranks =
     (case page_iteration_r rnd damping_factor graph ranks of
        Inl e \<Rightarrow> Inl e
      | Inr (new_ranks, total_diff) \<Rightarrow>
          (if total_diff < tolerance then Inr new_ranks
           else page_loop_r rnd k damping_factor tolerance graph new_ranks))"

text \<open>pr.py lines 20-60: the ranks are returned as the loop leaves them.\<close>

definition page_rank_r :: "(real \<Rightarrow> real) \<Rightarrow> 'n graph \<Rightarrow> real \<Rightarrow> int \<Rightarrow> real
    \<Rightarrow> error + 'n ranks" where
  "page_rank_r rnd graph damping_factor max_iterations tolerance =
     (let ranks = init_ranks_r rnd (dict_keys graph)
      in page_loop_r rnd (nat max_iterations) damping_factor tolerance graph ranks)"

section \<open>Notions of the specification\<close>

text \<open>The dictionary \<^verbatim>\<open>{k: f(k) for k in ks}\<close> of a total function \<open>f\<close>: the form every
  rank vector of the solvers has.\<close>

definition tab :: "'k list \<Rightarrow> ('k \<Rightarrow> 'v) \<Rightarrow> ('k, 'v) dict" where
  "tab ks f = map (\<lambda>k. (k, f k)) ks"

text \<open>Every link target is a key of the graph (the invariant of the spec's graph model), and
  the well-formed graphs: dictionaries (distinct keys) that are closed in this sense.\<close>

definition closed_graph :: "'n graph \<Rightarrow> bool" where
  "closed_graph graph =
     list_all (\<lambda>(n, outs). list_all (\<lambda>dst. dst \<in> set (dict_keys graph)) outs) graph"

definition wf_graph :: "'n graph \<Rightarrow> bool" where
  "wf_graph graph = (distinct (dict_keys graph) \<and> closed_graph graph)"

text \<open>\<open>outDegree(n)\<close>: the entry of \<^verbatim>\<open>out_degree\<close> for \<^verbatim>\<open>n\<close>, that is
  \<^verbatim>\<open>len(graph.get(n, []))\<close>; duplicates in the list are counted.\<close>

definition out_degree :: "'n graph \<Rightarrow> 'n \<Rightarrow> nat" where
  "out_degree graph n = length (dict_get graph n [])"

text \<open>The reverse adjacency list of \<open>p\<close>: one entry \<open>src\<close> for every occurrence of \<open>p\<close> in
  the outbound list of \<open>src\<close>, in the order of the graph's items.\<close>

definition in_links :: "'n graph \<Rightarrow> 'n \<Rightarrow> 'n list" where
  "in_links graph p =
     concat (map (\<lambda>(src, outs). map (\<lambda>dst. src) (filter ((=) p) outs)) graph)"

text \<open>The weight a rank or teleportation dictionary gives a node, 0 for a node without entry
  (\<^verbatim>\<open>d.get(n, 0.0)\<close>).\<close>

definition rank_of :: "'n ranks \<Rightarrow> 'n \<Rightarrow> real" where
  "rank_of ranks n = dict_get ranks n 0"

text \<open>\<open>danglingMass\<close>: the ranks of the nodes of out-degree 0, summed.\<close>

definition dangling_mass :: "'n graph \<Rightarrow> 'n ranks \<Rightarrow> real" where
  "dangling_mass graph ranks =
     (\<Sum>n\<leftarrow>filter (\<lambda>n. out_degree graph n = 0) (dict_keys graph). rank_of ranks n)"

text \<open>The right-hand side of the spec's recurrence for \<open>newRank(p)\<close>, and the rank vector
  it defines over the nodes of the graph.\<close>

definition topic_update :: "'n graph \<Rightarrow> 'n ranks \<Rightarrow> real \<Rightarrow> 'n ranks \<Rightarrow> 'n \<Rightarrow> real" where
  "topic_update graph topic_vector damping ranks p =
     (1 - damping) * rank_of topic_vector p
     + damping * ((\<Sum>q\<leftarrow>in_links graph p. rank_of ranks q / real (out_degree graph q))
                  + dangling_mass graph ranks * rank_of topic_vector p)"

definition topic_step :: "'n graph \<Rightarrow> 'n ranks \<Rightarrow> real \<Rightarrow> 'n ranks \<Rightarrow> 'n ranks" where
  "topic_step graph topic_vector damping ranks =
     tab (dict_keys graph) (topic_update graph topic_vector damping ranks)"

text \<open>\<^verbatim>\<open>sum(ranks.values())\<close>, and the rank vectors without negative entry.\<close>

definition ranks_sum :: "'n ranks \<Rightarrow> real" where
  "ranks_sum ranks = sum_list (dict_values ranks)"

definition nonneg_ranks :: "'n ranks \<Rightarrow> bool" where
  "nonneg_ranks ranks = list_all (\<lambda>(n, r). 0 \<le> r) ranks"

text \<open>The pages that receive a share from a page with outbound list \<open>links\<close> in
  \<^verbatim>\<open>page_rank\<close>: the links, or every page when there is no link.\<close>

definition targets :: "'n graph \<Rightarrow> 'n list \<Rightarrow> 'n list" where
  "targets graph links = (if links \<noteq> [] then links else dict_keys graph)"

text \<open>The L1 distance \<open>diff\<close> between two rank vectors over \<open>nodes\<close>.\<close>

definition l1_diff :: "'n list \<Rightarrow> 'n ranks \<Rightarrow> 'n ranks \<Rightarrow> real" where
  "l1_diff nodes new_ranks ranks = (\<Sum>n\<leftarrow>nodes. \<bar>rank_of new_ranks n - rank_of ranks n\<bar>)"

text \<open>\<open>iterationsRun\<close>: the number of iterations the loop performs with a budget of \<open>k\<close>,
  stopping after the first iteration whose \<open>diff\<close> is below \<open>tol\<close>.\<close>

fun iterations_run :: "nat \<Rightarrow> 'n graph \<Rightarrow> 'n ranks \<Rightarrow> real \<Rightarrow> real \<Rightarrow> 'n ranks \<Rightarrow> nat" where
  "iterations_run 0 graph topic_vector damping tol ranks = 0"
| "iterations_run (Suc k) graph topic_vector damping tol ranks =
     (if l1_diff (dict_keys graph) (topic_step graph topic_vector damping ranks) ranks < tol
      then 1
      else Suc (iterations_run k graph topic_vector damping tol
                  (topic_step graph topic_vector damping ranks)))"

section \<open>Properties\<close>

subsection \<open>Dictionaries of a total function, and the incoming-links index\<close>

lemma dict_keys_tab: "dict_keys (tab ks f) = ks"
  by (simp add: tab_def dict_keys_def comp_def)

lemma dict_values_tab: "dict_values (tab ks f) = map f ks"
  by (simp add: tab_def dict_values_def comp_def)

lemma map_of_tab: "map_of (tab ks f) k = (if k \<in> set ks then Some (f k) else None)"
  by (induction ks) (auto simp: tab_def)

lemma dict_getitem_tab: "k \<in> set ks \<Longrightarrow> dict_getitem (tab ks f) k = Inr (f k)"
  by (simp add: dict_getitem_def map_of_tab)

lemma dict_get_tab: "k \<in> set ks \<Longrightarrow> dict_get (tab ks f) k dflt = f k"
  by (simp add: dict_get_def map_of_tab)

lemma dict_setitem_tab:
  "distinct ks \<Longrightarrow> k \<in> set ks \<Longrightarrow> dict_setitem (tab ks f) k v = tab ks (f(k := v))"
  by (induction ks) (auto simp: tab_def)

lemma dict_iadd_tab:
  "distinct ks \<Longrightarrow> k \<in> set ks \<Longrightarrow> dict_iadd (tab ks f) k x = Inr (tab ks (f(k := f k + x)))"
  by (simp add: dict_iadd_def dict_getitem_tab dict_setitem_tab)

lemma tab_cong: "(\<And>k. k \<in> set ks \<Longrightarrow> f k = g k) \<Longrightarrow> tab ks f = tab ks g"
  by (simp add: tab_def)

lemma sum_gen_Inr:
  "(\<And>x. x \<in> set xs \<Longrightarrow> f x = Inr (g x)) \<Longrightarrow> sum_gen f xs acc = Inr (acc + sum_list (map g xs))"
  by (induction xs arbitrary: acc) (auto simp: algebra_simps)

lemma append_at_tab: "append_at (tab ks h) dst src = tab ks (h(dst := h dst @ [src]))"
  by (simp add: append_at_def tab_def)

lemma scan_outs_tab:
  "set outs \<subseteq> set ks \<Longrightarrow>
   scan_outs src outs (g, tab ks h) = (g, tab ks (\<lambda>n. h n @ map (\<lambda>_. src) (filter ((=) n) outs)))"
proof (induction outs arbitrary: h)
  case Nil
  then show ?case by simp
next
  case (Cons dst outs)
  then show ?case
    by (auto simp: dict_keys_tab append_at_tab intro!: tab_cong)
qed

lemma scan_items_tab:
  "\<forall>(src, outs) \<in> set items. set outs \<subseteq> set ks \<Longrightarrow> length g = used \<Longrightarrow>
   scan_items used items (g, tab ks h) =
     (g, Inr (tab ks (\<lambda>n. h n @ concat (map (\<lambda>(src, outs). map (\<lambda>dst. src) (filter ((=) n) outs)) items))))"
proof (induction items arbitrary: h)
  case Nil
  then show ?case by simp
next
  case (Cons item items)
  obtain src outs where item: "item = (src, outs)" by (cases item)
  from Cons.prems item have outs: "set outs \<subseteq> set ks" by simp
  from Cons.prems have rest: "\<forall>(src, outs) \<in> set items. set outs \<subseteq> set ks" by simp
  show ?case
    using Cons.prems(2)
    by (simp add: item scan_outs_tab [OF outs] Cons.IH [OF rest Cons.prems(2)])
qed

lemma closed_graph_iff:
  "closed_graph g \<longleftrightarrow> (\<forall>(n, outs) \<in> set g. set outs \<subseteq> set (dict_keys g))"
  by (auto simp: closed_graph_def list_all_iff)

lemma build_incoming_links_closed:
  "closed_graph g \<Longrightarrow>
   build_incoming_links g = (g, Inr (tab (dict_keys g) (in_links g), dict_keys g))"
proof -
  assume "closed_graph g"
  then have c: "\<forall>(src, outs) \<in> set g. set outs \<subseteq> set (dict_keys g)"
    by (simp add: closed_graph_iff)
  have e: "map (\<lambda>n. (n, [])) (dict_keys g) = tab (dict_keys g) (\<lambda>n. [])"
    by (simp add: tab_def)
  show ?thesis
    unfolding build_incoming_links_def Let_def e
    by (simp add: scan_items_tab [OF c refl] in_links_def [abs_def])
qed

lemma rank_sum_Inr:
  "set qs \<subseteq> set (dict_keys ranks) \<Longrightarrow>
   rank_sum ranks od qs acc = Inr (acc + (\<Sum>q\<leftarrow>qs. rank_of ranks q / real (dict_get od q 0)))"
proof (induction qs arbitrary: acc)
  case Nil
  then show ?case by simp
next
  case (Cons q qs)
  from Cons.prems have "map_of ranks q \<noteq> None"
    by (simp add: dict_keys_def map_of_eq_None_iff)
  then obtain r where r: "map_of ranks q = Some r" by blast
  then show ?case using Cons
    by (simp add: dict_getitem_def rank_of_def dict_get_def Let_def algebra_simps)
qed

lemma dict_getitem_rank_of:
  "n \<in> set (dict_keys ranks) \<Longrightarrow> dict_getitem ranks n = Inr (rank_of ranks n)"
proof -
  assume "n \<in> set (dict_keys ranks)"
  then have "map_of ranks n \<noteq> None"
    by (simp add: dict_keys_def map_of_eq_None_iff)
  then show ?thesis
    by (auto simp: dict_getitem_def rank_of_def dict_get_def)
qed

lemma rank_of_tab: "n \<in> set ks \<Longrightarrow> rank_of (tab ks f) n = f n"
  by (simp add: rank_of_def dict_get_tab)

lemma out_degrees_tab: "out_degrees g ks = tab ks (out_degree g)"
  by (simp add: out_degrees_def tab_def out_degree_def)

lemma dangling_sum_Inr:
  assumes "set (dict_keys g) \<subseteq> set (dict_keys ranks)"
  shows "dangling_sum ranks (out_degrees g (dict_keys g)) = Inr (dangling_mass g ranks)"
proof -
  let ?dang = "filter (\<lambda>n. out_degree g n = 0) (dict_keys g)"
  have f: "filter (\<lambda>(n, d). d = 0) (out_degrees g (dict_keys g))
             = map (\<lambda>n. (n, out_degree g n)) ?dang"
    by (simp add: out_degrees_tab tab_def filter_map comp_def)
  have "sum_gen (\<lambda>(n, d). dict_getitem ranks n) (map (\<lambda>n. (n, out_degree g n)) ?dang) 0
          = Inr (0 + sum_list (map (\<lambda>(n, d). rank_of ranks n) (map (\<lambda>n. (n, out_degree g n)) ?dang)))"
    using assms by (intro sum_gen_Inr) (auto simp: dict_getitem_rank_of)
  then show ?thesis
    by (simp add: dangling_sum_def f dangling_mass_def comp_def)
qed

lemma teleport_base_tab:
  "teleport_base nodes tv d = tab nodes (\<lambda>p. (1 - d) * rank_of tv p)"
  by (simp add: teleport_base_def tab_def rank_of_def)

lemma add_contributions_tab:
  assumes "distinct ks"
  shows "distinct ps \<Longrightarrow> set ps \<subseteq> set ks \<Longrightarrow>
     \<forall>p \<in> set ps. set (inl p) \<subseteq> set (dict_keys ranks) \<Longrightarrow>
     add_contributions ranks od (tab ks inl) tv d ds ps (tab ks h) =
       Inr (tab ks (\<lambda>n. if n \<in> set ps
              then h n + d * ((\<Sum>q\<leftarrow>inl n. rank_of ranks q / real (dict_get od q 0))
                              + ds * rank_of tv n)
              else h n))"
proof (induction ps arbitrary: h)
  case Nil
  then show ?case by simp
next
  case (Cons p ps)
  let ?c = "\<lambda>n. d * ((\<Sum>q\<leftarrow>inl n. rank_of ranks q / real (dict_get od q 0)) + ds * rank_of tv n)"
  from Cons.prems have p: "p \<in> set ks" "p \<notin> set ps" and ps: "distinct ps" "set ps \<subseteq> set ks"
    and inl: "set (inl p) \<subseteq> set (dict_keys ranks)"
    and rest: "\<forall>p \<in> set ps. set (inl p) \<subseteq> set (dict_keys ranks)"
    by auto
  have step: "add_contributions ranks od (tab ks inl) tv d ds (p # ps) (tab ks h)
      = add_contributions ranks od (tab ks inl) tv d ds ps (tab ks (h(p := h p + ?c p)))"
    using p(1)
    by (simp add: dict_get_tab rank_sum_Inr [OF inl] dict_iadd_tab [OF assms]
          rank_of_def [symmetric])
  have "tab ks (\<lambda>n. if n \<in> set ps then (h(p := h p + ?c p)) n + ?c n else (h(p := h p + ?c p)) n)
      = tab ks (\<lambda>n. if n \<in> set (p # ps) then h n + ?c n else h n)"
    using p(2) by (intro tab_cong) auto
  then show ?case
    unfolding step Cons.IH [OF ps rest] by simp
qed

lemma in_links_keys: "set (in_links g p) \<subseteq> set (dict_keys g)"
  by (force simp: in_links_def dict_keys_def)

lemma abs_change_Inr:
  "n \<in> set (dict_keys new) \<Longrightarrow> n \<in> set (dict_keys old) \<Longrightarrow>
   abs_change new old n = Inr \<bar>rank_of new n - rank_of old n\<bar>"
  by (simp add: abs_change_def dict_getitem_rank_of)

lemma l1_diff_Inr:
  "set ns \<subseteq> set (dict_keys new) \<Longrightarrow> set ns \<subseteq> set (dict_keys old) \<Longrightarrow>
   sum_gen (abs_change new old) ns 0 = Inr (l1_diff ns new old)"
proof -
  assume a: "set ns \<subseteq> set (dict_keys new)" "set ns \<subseteq> set (dict_keys old)"
  have "sum_gen (abs_change new old) ns 0
          = Inr (0 + sum_list (map (\<lambda>n. \<bar>rank_of new n - rank_of old n\<bar>) ns))"
    using a by (intro sum_gen_Inr abs_change_Inr) auto
  then show ?thesis by (simp add: l1_diff_def)
qed

lemma topic_iteration_wf:
  assumes wf: "wf_graph g" and ks: "set (dict_keys g) \<subseteq> set (dict_keys ranks)"
  shows "topic_iteration (dict_keys g) (out_degrees g (dict_keys g)) tv d g ranks =
           (g, Inr (topic_step g tv d ranks,
                    l1_diff (dict_keys g) (topic_step g tv d ranks) ranks))"
proof -
  from wf have dist: "distinct (dict_keys g)" and closed: "closed_graph g"
    by (simp_all add: wf_graph_def)
  have inl: "\<forall>p \<in> set (dict_keys g). set (in_links g p) \<subseteq> set (dict_keys ranks)"
  proof
    fix p
    show "set (in_links g p) \<subseteq> set (dict_keys ranks)"
      using in_links_keys [of g p] ks by (rule subset_trans)
  qed
  have od: "dict_get (out_degrees g (dict_keys g)) q 0 = out_degree g q"
    if "q \<in> set (in_links g n)" for n q
  proof -
    from that in_links_keys [of g n] have "q \<in> set (dict_keys g)" by (rule subsetD [rotated])
    then show ?thesis by (simp add: out_degrees_tab dict_get_tab)
  qed
  have sums: "(\<Sum>q\<leftarrow>in_links g n. rank_of ranks q / real (dict_get (out_degrees g (dict_keys g)) q 0))
               = (\<Sum>q\<leftarrow>in_links g n. rank_of ranks q / real (out_degree g q))" for n
    by (rule arg_cong [where f = sum_list], rule map_cong [OF refl]) (simp add: od)
  have contrib: "add_contributions ranks (out_degrees g (dict_keys g))
          (tab (dict_keys g) (in_links g)) tv d (dangling_mass g ranks) (dict_keys g)
          (tab (dict_keys g) (\<lambda>p. (1 - d) * rank_of tv p))
        = Inr (topic_step g tv d ranks)"
    unfolding add_contributions_tab [OF dist dist subset_refl inl] topic_step_def sums
    by (rule arg_cong [where f = Inr], rule tab_cong) (simp add: topic_update_def)
  have k': "set (dict_keys g) \<subseteq> set (dict_keys (topic_step g tv d ranks))"
    by (simp add: topic_step_def dict_keys_tab)
  show ?thesis
    unfolding topic_iteration_def dangling_sum_Inr [OF ks] teleport_base_tab
      build_incoming_links_closed [OF closed] Let_def
    by (simp add: contrib l1_diff_Inr [OF k' ks])
qed

subsection \<open>Sums over lists\<close>

lemma sum_list_swap:
  "(\<Sum>x\<leftarrow>xs. \<Sum>y\<leftarrow>ys. f x y) = (\<Sum>y\<leftarrow>ys. \<Sum>x\<leftarrow>xs. (f x y :: real))"
  by (induction xs) (simp_all add: sum_list_addf)

lemma sum_list_const_filter:
  "(\<Sum>y\<leftarrow>filter P ys. (c :: real)) = real (length (filter P ys)) * c"
  by (induction ys) (simp_all add: algebra_simps)

lemma length_filter_sum:
  "real (length (filter P ys)) = (\<Sum>y\<leftarrow>ys. if P y then 1 else 0)"
  by (induction ys) simp_all

lemma sum_list_indicator:
  "distinct ks \<Longrightarrow> (\<Sum>p\<leftarrow>ks. if p = y then 1 else (0::real)) = (if y \<in> set ks then 1 else 0)"
  by (induction ks) auto

lemma count_over_nodes:
  assumes "distinct ks" "set outs \<subseteq> set ks"
  shows "(\<Sum>p\<leftarrow>ks. real (length (filter ((=) p) outs))) = real (length outs)"
proof -
  have "(\<Sum>p\<leftarrow>ks. real (length (filter ((=) p) outs)))
          = (\<Sum>p\<leftarrow>ks. \<Sum>y\<leftarrow>outs. if p = y then 1 else 0)"
    by (simp add: length_filter_sum)
  also have "\<dots> = (\<Sum>y\<leftarrow>outs. \<Sum>p\<leftarrow>ks. if p = y then 1 else 0)"
    by (rule sum_list_swap)
  also have "\<dots> = (\<Sum>y\<leftarrow>outs. 1)"
    using assms
    by (intro arg_cong [where f = sum_list] map_cong [OF refl])
       (auto simp: sum_list_indicator)
  also have "\<dots> = real (length outs)"
    by (simp add: sum_list_triv)
  finally show ?thesis .
qed

lemma sum_in_links:
  "(\<Sum>q\<leftarrow>in_links g p. (F q :: real))
     = (\<Sum>(src, outs)\<leftarrow>g. real (length (filter ((=) p) outs)) * F src)"
  by (induction g) (auto simp: in_links_def comp_def sum_list_const_filter)

lemma sum_list_cong:
  "(\<And>x. x \<in> set xs \<Longrightarrow> f x = g x) \<Longrightarrow> sum_list (map f xs) = sum_list (map g xs)"
  by (rule arg_cong [where f = sum_list]) simp

subsection \<open>Conservation of the rank mass\<close>

lemma out_degree_item:
  "distinct (dict_keys g) \<Longrightarrow> (src, outs) \<in> set g \<Longrightarrow> out_degree g src = length outs"
  by (simp add: out_degree_def dict_get_def dict_keys_def)

lemma link_mass:
  assumes wf: "wf_graph g"
  shows "(\<Sum>p\<leftarrow>dict_keys g. \<Sum>q\<leftarrow>in_links g p. r q / real (out_degree g q))
           = (\<Sum>(src, outs)\<leftarrow>g. if outs = [] then 0 else (r src :: real))"
proof -
  from wf have dist: "distinct (dict_keys g)"
    and closed: "\<forall>(n, outs) \<in> set g. set outs \<subseteq> set (dict_keys g)"
    by (simp_all add: wf_graph_def closed_graph_iff)
  let ?F = "\<lambda>q. r q / real (out_degree g q)"
  have "(\<Sum>p\<leftarrow>dict_keys g. \<Sum>q\<leftarrow>in_links g p. ?F q)
          = (\<Sum>p\<leftarrow>dict_keys g. \<Sum>item\<leftarrow>g. real (length (filter ((=) p) (snd item))) * ?F (fst item))"
    by (simp add: sum_in_links case_prod_unfold)
  also have "\<dots> = (\<Sum>item\<leftarrow>g. \<Sum>p\<leftarrow>dict_keys g. real (length (filter ((=) p) (snd item))) * ?F (fst item))"
    by (rule sum_list_swap)
  also have "\<dots> = (\<Sum>item\<leftarrow>g. (\<Sum>p\<leftarrow>dict_keys g. real (length (filter ((=) p) (snd item)))) * ?F (fst item))"
    by (simp only: sum_list_mult_const)
  also have "\<dots> = (\<Sum>item\<leftarrow>g. if snd item = [] then 0 else r (fst item))"
  proof (rule sum_list_cong)
    fix item assume item: "item \<in> set g"
    then have sub: "set (snd item) \<subseteq> set (dict_keys g)"
      using closed by (auto simp: case_prod_unfold)
    have deg: "out_degree g (fst item) = length (snd item)"
      using out_degree_item [OF dist, of "fst item" "snd item"] item by simp
    show "(\<Sum>p\<leftarrow>dict_keys g. real (length (filter ((=) p) (snd item)))) * ?F (fst item)
            = (if snd item = [] then 0 else r (fst item))"
      by (simp add: count_over_nodes [OF dist sub] deg)
  qed
  finally show ?thesis by (simp add: case_prod_unfold)
qed

lemma dangling_mass_items:
  assumes dist: "distinct (dict_keys g)"
  shows "dangling_mass g ranks
           = (\<Sum>(src, outs)\<leftarrow>g. if outs = [] then rank_of ranks src else 0)"
proof -
  have "dangling_mass g ranks
          = (\<Sum>n\<leftarrow>dict_keys g. if out_degree g n = 0 then rank_of ranks n else 0)"
    by (simp add: dangling_mass_def sum_list_map_filter')
  also have "\<dots> = (\<Sum>item\<leftarrow>g. if out_degree g (fst item) = 0 then rank_of ranks (fst item) else 0)"
    by (simp add: dict_keys_def comp_def)
  also have "\<dots> = (\<Sum>item\<leftarrow>g. if snd item = [] then rank_of ranks (fst item) else 0)"
  proof (rule sum_list_cong)
    fix item assume "item \<in> set g"
    then have "out_degree g (fst item) = length (snd item)"
      using out_degree_item [OF dist, of "fst item" "snd item"] by simp
    then show "(if out_degree g (fst item) = 0 then rank_of ranks (fst item) else 0)
                 = (if snd item = [] then rank_of ranks (fst item) else 0)"
      by simp
  qed
  finally show ?thesis by (simp add: case_prod_unfold)
qed

lemma rank_of_keys_sum:
  "distinct (dict_keys ranks) \<Longrightarrow> (\<Sum>n\<leftarrow>dict_keys ranks. rank_of ranks n) = ranks_sum ranks"
proof -
  assume dist: "distinct (dict_keys ranks)"
  have "(\<Sum>n\<leftarrow>dict_keys ranks. rank_of ranks n) = (\<Sum>item\<leftarrow>ranks. rank_of ranks (fst item))"
    by (simp add: dict_keys_def comp_def)
  also have "\<dots> = (\<Sum>item\<leftarrow>ranks. snd item)"
  proof (rule sum_list_cong)
    fix item assume "item \<in> set ranks"
    then have "map_of ranks (fst item) = Some (snd item)"
      using dist by (simp add: dict_keys_def)
    then show "rank_of ranks (fst item) = snd item"
      by (simp add: rank_of_def dict_get_def)
  qed
  finally show ?thesis by (simp add: ranks_sum_def dict_values_def)
qed

lemma topic_update_sum:
  assumes wf: "wf_graph g"
  shows "(\<Sum>p\<leftarrow>dict_keys g. topic_update g tv d ranks p)
           = (1 - d) * (\<Sum>p\<leftarrow>dict_keys g. rank_of tv p)
             + d * ((\<Sum>n\<leftarrow>dict_keys g. rank_of ranks n)
                    - dangling_mass g ranks
                    + dangling_mass g ranks * (\<Sum>p\<leftarrow>dict_keys g. rank_of tv p))"
proof -
  from wf have dist: "distinct (dict_keys g)" by (simp add: wf_graph_def)
  let ?T = "(\<Sum>p\<leftarrow>dict_keys g. rank_of tv p)"
  let ?L = "(\<Sum>p\<leftarrow>dict_keys g. \<Sum>q\<leftarrow>in_links g p. rank_of ranks q / real (out_degree g q))"
  have split: "(\<Sum>n\<leftarrow>dict_keys g. rank_of ranks n) = ?L + dangling_mass g ranks"
  proof -
    have "(\<Sum>n\<leftarrow>dict_keys g. rank_of ranks n) = (\<Sum>item\<leftarrow>g. rank_of ranks (fst item))"
      by (simp add: dict_keys_def comp_def)
    also have "\<dots> = (\<Sum>item\<leftarrow>g. (if snd item = [] then 0 else rank_of ranks (fst item))
                               + (if snd item = [] then rank_of ranks (fst item) else 0))"
      by (rule sum_list_cong) simp
    also have "\<dots> = ?L + dangling_mass g ranks"
      by (simp add: sum_list_addf link_mass [OF wf] dangling_mass_items [OF dist]
            case_prod_unfold)
    finally show ?thesis .
  qed
  have "(\<Sum>p\<leftarrow>dict_keys g. topic_update g tv d ranks p)
          = (1 - d) * ?T + d * (?L + dangling_mass g ranks * ?T)"
    by (simp add: topic_update_def sum_list_addf sum_list_const_mult distrib_left)
  then show ?thesis by (simp add: split)
qed

lemma dict_keys_topic_step: "dict_keys (topic_step g tv d ranks) = dict_keys g"
  by (simp add: topic_step_def dict_keys_tab)

lemma ranks_sum_tab: "ranks_sum (tab ks f) = sum_list (map f ks)"
  by (simp add: ranks_sum_def dict_values_tab)

lemma topic_step_sum:
  assumes wf: "wf_graph g" and keys: "dict_keys ranks = dict_keys g"
    and tv: "(\<Sum>p\<leftarrow>dict_keys g. rank_of tv p) = 1" and one: "ranks_sum ranks = 1"
  shows "ranks_sum (topic_step g tv d ranks) = 1"
proof -
  from wf keys have "distinct (dict_keys ranks)" by (simp add: wf_graph_def)
  then have "(\<Sum>n\<leftarrow>dict_keys g. rank_of ranks n) = 1"
    using rank_of_keys_sum [of ranks] keys one by simp
  then show ?thesis
    by (simp add: topic_step_def ranks_sum_tab topic_update_sum [OF wf] tv algebra_simps)
qed

subsection \<open>The iteration loop\<close>

lemma iterations_run_le: "iterations_run n g tv d tol ranks \<le> n"
  by (induction n arbitrary: ranks) auto

lemma iterations_run_pos: "0 < n \<Longrightarrow> 0 < iterations_run n g tv d tol ranks"
  by (cases n) auto

lemma iterations_run_no_convergence:
  "(\<And>j. j < n \<Longrightarrow> \<not> l1_diff (dict_keys g) ((topic_step g tv d ^^ Suc j) ranks)
                            ((topic_step g tv d ^^ j) ranks) < tol) \<Longrightarrow>
   iterations_run n g tv d tol ranks = n"
proof (induction n arbitrary: ranks)
  case 0
  then show ?case by simp
next
  case (Suc n)
  have first: "\<not> l1_diff (dict_keys g) (topic_step g tv d ranks) ranks < tol"
    using Suc.prems [of 0] by simp
  have "iterations_run n g tv d tol (topic_step g tv d ranks) = n"
  proof (rule Suc.IH)
    fix j assume "j < n"
    then have "Suc j < Suc n" by simp
    from Suc.prems [OF this]
    show "\<not> l1_diff (dict_keys g) ((topic_step g tv d ^^ Suc j) (topic_step g tv d ranks))
              ((topic_step g tv d ^^ j) (topic_step g tv d ranks)) < tol"
      by (simp add: funpow_swap1)
  qed
  with first show ?case by simp
qed

lemma topic_loop_wf:
  assumes wf: "wf_graph g"
  shows "set (dict_keys g) \<subseteq> set (dict_keys ranks) \<Longrightarrow>
     topic_loop n (dict_keys g) (out_degrees g (dict_keys g)) tv d tol g ranks =
       (g, Inr ((topic_step g tv d ^^ iterations_run n g tv d tol ranks) ranks))"
proof (induction n arbitrary: ranks)
  case 0
  then show ?case by simp
next
  case (Suc n)
  have k': "set (dict_keys g) \<subseteq> set (dict_keys (topic_step g tv d ranks))"
    by (simp add: dict_keys_topic_step)
  show ?case
    by (simp add: topic_iteration_wf [OF wf Suc.prems] Suc.IH [OF k'] funpow_swap1)
qed

lemma funpow_invariant:
  "P x \<Longrightarrow> (\<And>y. P y \<Longrightarrow> P (f y)) \<Longrightarrow> P ((f ^^ k) x)"
  by (induction k) simp_all

lemma dict_keys_init_ranks: "dict_keys (init_ranks ks) = ks"
  by (simp add: init_ranks_def dict_keys_def comp_def)

lemma ranks_sum_init_ranks: "ks \<noteq> [] \<Longrightarrow> ranks_sum (init_ranks ks) = 1"
  by (simp add: init_ranks_def ranks_sum_def dict_values_def comp_def sum_list_triv)

lemma normalize_ranks_unit: "ranks_sum ranks = 1 \<Longrightarrow> normalize_ranks ranks = ranks"
  by (simp add: normalize_ranks_def ranks_sum_def case_prod_unfold)

lemma topic_pagerank_wf:
  assumes wf: "wf_graph g"
  shows "topic_pagerank g pages tv d tol max_iter =
     (g, Inr (normalize_ranks
        ((topic_step g tv d ^^ iterations_run (nat max_iter) g tv d tol (init_ranks (dict_keys g)))
           (init_ranks (dict_keys g)))))"
proof -
  have "set (dict_keys g) \<subseteq> set (dict_keys (init_ranks (dict_keys g)))"
    by (simp add: dict_keys_init_ranks)
  from topic_loop_wf [OF wf this] show ?thesis
    by (simp add: topic_pagerank_def Let_def)
qed

lemma iterate_sum:
  assumes wf: "wf_graph g" and ne: "g \<noteq> []"
    and tv: "(\<Sum>p\<leftarrow>dict_keys g. rank_of tv p) = 1"
  shows "dict_keys ((topic_step g tv d ^^ k) (init_ranks (dict_keys g))) = dict_keys g
         \<and> ranks_sum ((topic_step g tv d ^^ k) (init_ranks (dict_keys g))) = 1"
proof (rule funpow_invariant [where P = "\<lambda>r. dict_keys r = dict_keys g \<and> ranks_sum r = 1"])
  from ne have "dict_keys g \<noteq> []" by (simp add: dict_keys_def)
  then show "dict_keys (init_ranks (dict_keys g)) = dict_keys g
             \<and> ranks_sum (init_ranks (dict_keys g)) = 1"
    by (simp add: dict_keys_init_ranks ranks_sum_init_ranks)
next
  fix r assume "dict_keys r = dict_keys g \<and> ranks_sum r = 1"
  then show "dict_keys (topic_step g tv d r) = dict_keys g \<and> ranks_sum (topic_step g tv d r) = 1"
    by (simp add: dict_keys_topic_step topic_step_sum [OF wf _ tv])
qed

subsection \<open>Non-negative ranks\<close>

lemma rank_of_nonneg: "nonneg_ranks ranks \<Longrightarrow> 0 \<le> rank_of ranks n"
proof (cases "map_of ranks n")
  case None
  then show ?thesis by (simp add: rank_of_def dict_get_def)
next
  case (Some v)
  assume "nonneg_ranks ranks"
  moreover from Some have "(n, v) \<in> set ranks" by (rule map_of_SomeD)
  ultimately have "0 \<le> v" by (auto simp: nonneg_ranks_def list_all_iff)
  with Some show ?thesis by (simp add: rank_of_def dict_get_def)
qed

lemma nonneg_ranks_tab: "(\<And>k. k \<in> set ks \<Longrightarrow> 0 \<le> f k) \<Longrightarrow> nonneg_ranks (tab ks f)"
  by (simp add: nonneg_ranks_def tab_def list_all_iff)

lemma nonneg_init_ranks: "nonneg_ranks (init_ranks ks)"
  by (simp add: nonneg_ranks_def init_ranks_def list_all_iff)

lemma nonneg_normalize_ranks: "nonneg_ranks ranks \<Longrightarrow> nonneg_ranks (normalize_ranks ranks)"
  by (auto simp: nonneg_ranks_def normalize_ranks_def Let_def list_all_iff)

lemma dangling_mass_nonneg: "nonneg_ranks ranks \<Longrightarrow> 0 \<le> dangling_mass g ranks"
  by (auto simp: dangling_mass_def intro!: sum_list_nonneg rank_of_nonneg)

lemma topic_update_nonneg:
  assumes d: "0 \<le> d" "d \<le> 1" and tv: "nonneg_ranks tv" and r: "nonneg_ranks ranks"
  shows "0 \<le> topic_update g tv d ranks p"
proof -
  have links: "0 \<le> (\<Sum>q\<leftarrow>in_links g p. rank_of ranks q / real (out_degree g q))"
    by (rule sum_list_nonneg) (auto simp: rank_of_nonneg [OF r])
  have "0 \<le> (1 - d) * rank_of tv p"
    using d rank_of_nonneg [OF tv] by simp
  moreover have "0 \<le> d * ((\<Sum>q\<leftarrow>in_links g p. rank_of ranks q / real (out_degree g q))
                            + dangling_mass g ranks * rank_of tv p)"
    using d links dangling_mass_nonneg [OF r] rank_of_nonneg [OF tv] by simp
  ultimately show ?thesis by (simp add: topic_update_def)
qed

lemma topic_step_nonneg:
  "0 \<le> d \<Longrightarrow> d \<le> 1 \<Longrightarrow> nonneg_ranks tv \<Longrightarrow> nonneg_ranks ranks \<Longrightarrow>
   nonneg_ranks (topic_step g tv d ranks)"
  by (simp add: topic_step_def nonneg_ranks_tab topic_update_nonneg)

lemma iterate_nonneg:
  assumes "0 \<le> d" "d \<le> 1" "nonneg_ranks tv"
  shows "nonneg_ranks ((topic_step g tv d ^^ k) (init_ranks (dict_keys g)))"
  by (rule funpow_invariant [where P = nonneg_ranks])
     (simp_all add: nonneg_init_ranks topic_step_nonneg [OF assms])

subsection \<open>The classic solver computes the same step\<close>

lemma add_share_tab:
  assumes "distinct ks"
  shows "set ts \<subseteq> set ks \<Longrightarrow>
     add_share x ts (tab ks h) = Inr (tab ks (\<lambda>n. h n + real (length (filter ((=) n) ts)) * x))"
proof (induction ts arbitrary: h)
  case Nil
  then show ?case by simp
next
  case (Cons t ts)
  then have t: "t \<in> set ks" and ts: "set ts \<subseteq> set ks" by simp_all
  have "tab ks (\<lambda>n. (h(t := h t + x)) n + real (length (filter ((=) n) ts)) * x)
          = tab ks (\<lambda>n. h n + real (length (filter ((=) n) (t # ts))) * x)"
    by (rule tab_cong) (simp add: algebra_simps)
  then show ?case
    by (simp add: dict_iadd_tab [OF assms t] Cons.IH [OF ts])
qed

lemma length_targets_pos: "g \<noteq> [] \<Longrightarrow> 0 < length (targets g links)"
  by (simp add: targets_def dict_keys_def)

lemma distribute_tab:
  assumes dist: "distinct (dict_keys g)"
  shows "\<forall>(q, links) \<in> set items. set links \<subseteq> set (dict_keys g) \<and> q \<in> set (dict_keys ranks) \<Longrightarrow>
     distribute d g ranks items (tab (dict_keys g) h) =
       Inr (tab (dict_keys g) (\<lambda>n. h n +
              (\<Sum>(q, links)\<leftarrow>items. real (length (filter ((=) n) (targets g links)))
                   * (d * (rank_of ranks q / real (length (targets g links)))))))"
proof (induction items arbitrary: h)
  case Nil
  then show ?case by simp
next
  case (Cons item items)
  obtain q links where item: "item = (q, links)" by (cases item)
  let ?x = "d * (rank_of ranks q / real (length (targets g links)))"
  let ?h' = "\<lambda>n. h n + real (length (filter ((=) n) (targets g links))) * ?x"
  from Cons.prems item have links: "set links \<subseteq> set (dict_keys g)"
    and q: "q \<in> set (dict_keys ranks)"
    and rest: "\<forall>(q, links) \<in> set items. set links \<subseteq> set (dict_keys g) \<and> q \<in> set (dict_keys ranks)"
    by simp_all
  have tg: "set (targets g links) \<subseteq> set (dict_keys g)"
    using links by (simp add: targets_def)
  have len: "length (dict_keys g) = length g" by (simp add: dict_keys_def)
  have step: "distribute d g ranks (item # items) (tab (dict_keys g) h)
                = distribute d g ranks items (tab (dict_keys g) ?h')"
  proof (cases "links = []")
    case True
    then show ?thesis
      using add_share_tab [OF dist tg, of ?x h]
      by (simp add: item dict_getitem_rank_of [OF q] targets_def len)
  next
    case False
    then show ?thesis
      using add_share_tab [OF dist tg, of ?x h]
      by (simp add: item dict_getitem_rank_of [OF q] targets_def)
  qed
  show ?case
    unfolding step Cons.IH [OF rest]
    by (rule arg_cong [where f = Inr], rule tab_cong) (simp add: item)
qed

lemma length_filter_distinct:
  "distinct ks \<Longrightarrow> p \<in> set ks \<Longrightarrow> length (filter ((=) p) ks) = 1"
  by (induction ks) (auto simp: filter_empty_conv)

lemma page_update_eq:
  assumes wf: "wf_graph g" and p: "p \<in> set (dict_keys g)"
    and tv: "rank_of tv p = 1 / real (length g)"
  shows "(1 - d) / real (length g)
           + (\<Sum>(q, links)\<leftarrow>g. real (length (filter ((=) p) (targets g links)))
                 * (d * (rank_of ranks q / real (length (targets g links)))))
         = topic_update g tv d ranks p"
proof -
  from wf have dist: "distinct (dict_keys g)" by (simp add: wf_graph_def)
  let ?A = "\<lambda>item. real (length (filter ((=) p) (snd item)))
                     * (rank_of ranks (fst item) / real (out_degree g (fst item)))"
  let ?B = "\<lambda>item. if snd item = [] then rank_of ranks (fst item) else 0"
  let ?c = "1 / real (length g)"
  have "(\<Sum>item\<leftarrow>g. real (length (filter ((=) p) (targets g (snd item))))
                 * (d * (rank_of ranks (fst item) / real (length (targets g (snd item))))))
        = (\<Sum>item\<leftarrow>g. d * (?A item + ?B item * ?c))"
  proof (rule sum_list_cong)
    fix item assume item: "item \<in> set g"
    have deg: "out_degree g (fst item) = length (snd item)"
      using out_degree_item [OF dist, of "fst item" "snd item"] item by simp
    have len: "length (dict_keys g) = length g" by (simp add: dict_keys_def)
    show "real (length (filter ((=) p) (targets g (snd item))))
                 * (d * (rank_of ranks (fst item) / real (length (targets g (snd item)))))
          = d * (?A item + ?B item * ?c)"
      by (simp add: targets_def deg len length_filter_distinct [OF dist p])
  qed
  also have "\<dots> = d * ((\<Sum>item\<leftarrow>g. ?A item) + (\<Sum>item\<leftarrow>g. ?B item) * ?c)"
    by (simp only: sum_list_const_mult sum_list_addf sum_list_mult_const)
  finally have "(\<Sum>(q, links)\<leftarrow>g. real (length (filter ((=) p) (targets g links)))
                 * (d * (rank_of ranks q / real (length (targets g links)))))
        = d * ((\<Sum>q\<leftarrow>in_links g p. rank_of ranks q / real (out_degree g q))
               + dangling_mass g ranks * ?c)"
    by (simp add: sum_in_links dangling_mass_items [OF dist] case_prod_unfold)
  then show ?thesis
    by (simp add: topic_update_def tv)
qed

lemma page_iteration_wf:
  assumes wf: "wf_graph g" and ks: "set (dict_keys g) \<subseteq> set (dict_keys ranks)"
    and tv: "\<forall>p \<in> set (dict_keys g). rank_of tv p = 1 / real (length g)"
  shows "page_iteration d g ranks =
           Inr (topic_step g tv d ranks, l1_diff (dict_keys g) (topic_step g tv d ranks) ranks)"
proof -
  from wf have dist: "distinct (dict_keys g)"
    and closed: "\<forall>(n, outs) \<in> set g. set outs \<subseteq> set (dict_keys g)"
    by (simp_all add: wf_graph_def closed_graph_iff)
  have items: "\<forall>(q, links) \<in> set g. set links \<subseteq> set (dict_keys g) \<and> q \<in> set (dict_keys ranks)"
  proof (clarify, rule conjI)
    fix q links assume m: "(q, links) \<in> set g"
    with closed show "set links \<subseteq> set (dict_keys g)" by blast
    from m have "q \<in> set (dict_keys g)" by (force simp: dict_keys_def)
    with ks show "q \<in> set (dict_keys ranks)" by blast
  qed
  have base: "map (\<lambda>page. (page, (1 - d) / real (length g))) (dict_keys g)
                = tab (dict_keys g) (\<lambda>page. (1 - d) / real (length g))"
    by (simp add: tab_def)
  have dis: "distribute d g ranks g (tab (dict_keys g) (\<lambda>page. (1 - d) / real (length g)))
               = Inr (topic_step g tv d ranks)"
    unfolding distribute_tab [OF dist items] topic_step_def
  proof (rule arg_cong [where f = Inr], rule tab_cong)
    fix k assume k: "k \<in> set (dict_keys g)"
    with tv have "rank_of tv k = 1 / real (length g)" by simp
    from page_update_eq [OF wf k this]
    show "(1 - d) / real (length g)
           + (\<Sum>(q, links)\<leftarrow>g. real (length (filter ((=) k) (targets g links)))
                 * (d * (rank_of ranks q / real (length (targets g links)))))
         = topic_update g tv d ranks k" .
  qed
  have k': "set (dict_keys g) \<subseteq> set (dict_keys (topic_step g tv d ranks))"
    by (simp add: dict_keys_topic_step)
  show ?thesis
    unfolding page_iteration_def Let_def base dis
    by (simp add: l1_diff_Inr [OF k' ks])
qed

lemma page_loop_wf:
  assumes wf: "wf_graph g"
    and tv: "\<forall>p \<in> set (dict_keys g). rank_of tv p = 1 / real (length g)"
  shows "set (dict_keys g) \<subseteq> set (dict_keys ranks) \<Longrightarrow>
     page_loop n d tol g ranks =
       Inr ((topic_step g tv d ^^ iterations_run n g tv d tol ranks) ranks)"
proof (induction n arbitrary: ranks)
  case 0
  then show ?case by simp
next
  case (Suc n)
  have k': "set (dict_keys g) \<subseteq> set (dict_keys (topic_step g tv d ranks))"
    by (simp add: dict_keys_topic_step)
  show ?case
    by (simp add: page_iteration_wf [OF wf Suc.prems tv] Suc.IH [OF k'] funpow_swap1)
qed

lemma page_rank_wf:
  assumes wf: "wf_graph g"
    and tv: "\<forall>p \<in> set (dict_keys g). rank_of tv p = 1 / real (length g)"
  shows "page_rank g d max_iterations tol =
     Inr ((topic_step g tv d ^^ iterations_run (nat max_iterations) g tv d tol
             (init_ranks (dict_keys g))) (init_ranks (dict_keys g)))"
proof -
  have "set (dict_keys g) \<subseteq> set (dict_keys (init_ranks (dict_keys g)))"
    by (simp add: dict_keys_init_ranks)
  from page_loop_wf [OF wf tv this] show ?thesis
    by (simp add: page_rank_def Let_def)
qed

lemma uniform_sum:
  assumes ne: "g \<noteq> []"
    and tv: "\<forall>p \<in> set (dict_keys g). rank_of tv p = 1 / real (length g)"
  shows "(\<Sum>p\<leftarrow>dict_keys g. rank_of tv p) = 1"
proof -
  have "(\<Sum>p\<leftarrow>dict_keys g. rank_of tv p) = (\<Sum>p\<leftarrow>dict_keys g. 1 / real (length g))"
    using tv by (intro sum_list_cong) simp
  also have "\<dots> = 1"
    using ne by (simp add: sum_list_triv dict_keys_def comp_def)
  finally show ?thesis .
qed

lemma count_list_filter: "count_list xs x = length (filter ((=) x) xs)"
  by (induction xs) auto

lemma in_links_out_degree_pos:
  assumes dist: "distinct (dict_keys g)" and q: "q \<in> set (in_links g p)"
  shows "0 < out_degree g q"
proof -
  from q obtain outs where m: "(q, outs) \<in> set g" and "p \<in> set outs"
    by (auto simp: in_links_def)
  then have "outs \<noteq> []" by auto
  with out_degree_item [OF dist m] show ?thesis by simp
qed

lemma init_ranks_uniform:
  "\<forall>p \<in> set (dict_keys g). rank_of (init_ranks (dict_keys g)) p = 1 / real (length g)"
proof
  fix p assume "p \<in> set (dict_keys g)"
  moreover have "init_ranks (dict_keys g) = tab (dict_keys g) (\<lambda>n. 1 / real (length g))"
    by (simp add: init_ranks_def tab_def dict_keys_def)
  ultimately show "rank_of (init_ranks (dict_keys g)) p = 1 / real (length g)"
    by (simp add: rank_of_tab)
qed

lemma sum_list_select:
  "distinct (map fst g) \<Longrightarrow> (q, outs) \<in> set g \<Longrightarrow>
   (\<Sum>item\<leftarrow>g. if fst item = q then F (snd item) else (0::nat)) = F outs"
proof (induction g)
  case Nil
  then show ?case by simp
next
  case (Cons item g)
  show ?case
  proof (cases "item = (q, outs)")
    case True
    with Cons.prems have "q \<notin> fst ` set g" by simp
    then have "(\<Sum>item\<leftarrow>g. if fst item = q then F (snd item) else 0) = 0"
      by auto
    with True show ?thesis by simp
  next
    case False
    with Cons.prems have m: "(q, outs) \<in> set g" and d: "distinct (map fst g)" by simp_all
    from m have "q \<in> fst ` set g" by force
    with Cons.prems(1) have "fst item \<noteq> q" by auto
    with Cons.IH [OF d m] show ?thesis by simp
  qed
qed

lemma count_in_links:
  assumes dist: "distinct (dict_keys g)" and m: "(q, outs) \<in> set g"
  shows "count_list (in_links g p) q = count_list outs p"
proof -
  have "count_list (in_links g p) q
          = (\<Sum>item\<leftarrow>g. count_list (map (\<lambda>dst. fst item) (filter ((=) p) (snd item))) q)"
    by (simp add: in_links_def count_list_concat comp_def case_prod_unfold)
  also have "\<dots> = (\<Sum>item\<leftarrow>g. if fst item = q then length (filter ((=) p) (snd item)) else 0)"
    by (rule arg_cong [where f = sum_list], rule map_cong [OF refl])
       (auto simp: count_list_filter filter_empty_conv)
  also have "\<dots> = length (filter ((=) p) outs)"
    using dist m by (intro sum_list_select) (simp_all add: dict_keys_def)
  finally show ?thesis by (simp add: count_list_filter)
qed

subsection \<open>The empty graph\<close>

lemma topic_loop_empty:
  "topic_loop k [] [] topic_vector damping tol [] [] = ([], Inr [])"
  by (induction k)
     (simp_all add: topic_iteration_def dangling_sum_def teleport_base_def
        build_incoming_links_def dict_keys_def)

lemma page_loop_empty: "page_loop k damping_factor tolerance [] [] = Inr []"
  by (induction k) (simp_all add: page_iteration_def dict_keys_def)

text \<open>
  Claim C6, as stated: on the empty graph the solver and the uniform vector builder raise
  \<^verbatim>\<open>EmptyGraphError\<close>. The programs define no such exception and raise nothing there:
  at the concrete empty inputs below each of them returns the empty mapping.
\<close>

theorem empty_graph_no_error:
  "topic_pagerank ([] :: string graph) () [] (85 / 100) (1 / 1000000) 100 = ([], Inr [])
   \<and> page_rank ([] :: string graph) (85 / 100) 100 (1 / 1000000) = Inr []
   \<and> build_topic_vector ([] :: (string, (string, string) dict) dict) [''pagerank''] = Inr []"
  by code_simp

text \<open>
  Claim C6, amended: for the empty graph (and the empty set of pages), whatever the other
  arguments are, both solvers and the teleportation-vector builder return normally with
  the empty mapping, and the graph is still empty afterwards.
\<close>

theorem empty_graph_returns_empty:
  "topic_pagerank [] pages topic_vector damping tol max_iter = ([], Inr [])
   \<and> page_rank [] damping max_iter tol = Inr []
   \<and> build_topic_vector [] topic_keywords = Inr []"
  by (simp add: topic_pagerank_def page_rank_def build_topic_vector_def init_ranks_def
      out_degrees_def dict_keys_def dict_values_def normalize_ranks_def
      topic_loop_empty page_loop_empty)

subsection \<open>The graph argument of a solve call\<close>

text \<open>
  Claim C4, as stated: one solve call leaves every input graph unchanged. On the graph
  \<^verbatim>\<open>{'A': ['B']}\<close> the call adds the key \<^verbatim>\<open>'B'\<close> (\<^verbatim>\<open>graph.setdefault(dst, [])\<close>, line 66
  of topic_pagerank.py), so the graph after the call differs from the graph before it.
\<close>

theorem graph_mutated_by_solve:
  "fst (topic_pagerank [(''A'', [''B''])] () [(''A'', 1)] (85 / 100) (1 / 1000000) 100)
     \<noteq> [(''A'', [''B''])]"
  by code_simp

text \<open>
  Claim C4, amended: for every graph whose link targets all appear as keys, and every
  teleportation vector, damping, tolerance and iteration budget, the graph after the call
  of \<^verbatim>\<open>topic_pagerank\<close> is the graph before it.
\<close>

theorem closed_graph_unchanged:
  "wf_graph graph \<Longrightarrow> fst (topic_pagerank graph pages topic_vector damping tol max_iter) = graph"
  by (simp add: topic_pagerank_wf)

text \<open>The amended claim C4 at a graph with a dangling node and a duplicated link.\<close>

theorem closed_graph_unchanged_witness:
  "wf_graph [(''A'', [''B'', ''B'']), (''B'', []), (''C'', [''A'', ''D'']), (''D'', [''C''])]
   \<and> fst (topic_pagerank [(''A'', [''B'', ''B'']), (''B'', []), (''C'', [''A'', ''D'']), (''D'', [''C''])] ()
            [(''A'', 1 / 2), (''B'', 1 / 4), (''C'', 1 / 4), (''D'', 0)] (85 / 100) (1 / 1000000) 100)
      = [(''A'', [''B'', ''B'']), (''B'', []), (''C'', [''A'', ''D'']), (''D'', [''C''])]"
proof -
  have wf: "wf_graph [(''A'', [''B'', ''B'']), (''B'', []), (''C'', [''A'', ''D'']), (''D'', [''C''])]"
    by (simp add: wf_graph_def closed_graph_def dict_keys_def)
  show ?thesis
    by (rule conjI [OF wf closed_graph_unchanged [OF wf]])
qed

subsection \<open>One iteration of the topic-specific solver\<close>

text \<open>
  Claim C1: for every graph (a dictionary whose link targets are keys), teleportation vector,
  damping and rank vector of the previous iteration that covers the nodes, one iteration of
  \<^verbatim>\<open>topic_pagerank\<close> raises nothing, leaves the graph as it is and computes, for every
  node \<open>p\<close>,
  \<open>newRank(p) = (1 - damping) * teleport(p)
     + damping * (\<Sum> q in incoming[p]. rank(q) / outDegree(q) + danglingMass * teleport(p))\<close>
  where \<open>incoming\<close> is the index \<^verbatim>\<open>build_incoming_links\<close> returns, \<open>teleport(p)\<close> is
  \<^verbatim>\<open>topic_vector.get(p, 0.0)\<close> and \<open>danglingMass\<close> is the sum of the ranks of the nodes
  of out-degree 0: the dangling mass is weighted by the teleportation vector, not split
  uniformly. Every \<open>q\<close> in \<open>incoming[p]\<close> has a positive out-degree, so each quotient is
  a genuine division. The statement holds for every damping, in particular for
  \<open>0 \<le> damping < 1\<close>.
\<close>

theorem topic_iteration_formula:
  assumes "wf_graph graph" and "set (dict_keys graph) \<subseteq> set (dict_keys ranks)"
  shows "\<exists>incoming new_ranks diff.
      build_incoming_links graph = (graph, Inr (incoming, dict_keys graph))
    \<and> topic_iteration (dict_keys graph) (out_degrees graph (dict_keys graph))
          topic_vector damping graph ranks = (graph, Inr (new_ranks, diff))
    \<and> dict_keys new_ranks = dict_keys graph
    \<and> (\<forall>p \<in> set (dict_keys graph).
          dict_getitem new_ranks p =
            Inr ((1 - damping) * dict_get topic_vector p 0
                 + damping *
                   ((\<Sum>q\<leftarrow>dict_get incoming p []. rank_of ranks q / real (out_degree graph q))
                    + (\<Sum>n\<leftarrow>filter (\<lambda>n. out_degree graph n = 0) (dict_keys graph). rank_of ranks n)
                      * dict_get topic_vector p 0))
          \<and> (\<forall>q \<in> set (dict_get incoming p []). 0 < out_degree graph q))"
proof -
  from assms(1) have dist: "distinct (dict_keys graph)" and closed: "closed_graph graph"
    by (simp_all add: wf_graph_def)
  let ?inc = "tab (dict_keys graph) (in_links graph)"
  let ?new = "topic_step graph topic_vector damping ranks"
  have "build_incoming_links graph = (graph, Inr (?inc, dict_keys graph))"
    by (rule build_incoming_links_closed [OF closed])
  moreover have "topic_iteration (dict_keys graph) (out_degrees graph (dict_keys graph))
          topic_vector damping graph ranks
        = (graph, Inr (?new, l1_diff (dict_keys graph) ?new ranks))"
    by (rule topic_iteration_wf [OF assms])
  moreover have "dict_keys ?new = dict_keys graph"
    by (rule dict_keys_topic_step)
  moreover have "\<forall>p \<in> set (dict_keys graph).
          dict_getitem ?new p =
            Inr ((1 - damping) * dict_get topic_vector p 0
                 + damping *
                   ((\<Sum>q\<leftarrow>dict_get ?inc p []. rank_of ranks q / real (out_degree graph q))
                    + (\<Sum>n\<leftarrow>filter (\<lambda>n. out_degree graph n = 0) (dict_keys graph). rank_of ranks n)
                      * dict_get topic_vector p 0))
          \<and> (\<forall>q \<in> set (dict_get ?inc p []). 0 < out_degree graph q)"
  proof (intro ballI conjI)
    fix p assume p: "p \<in> set (dict_keys graph)"
    then show "dict_getitem ?new p =
            Inr ((1 - damping) * dict_get topic_vector p 0
                 + damping *
                   ((\<Sum>q\<leftarrow>dict_get ?inc p []. rank_of ranks q / real (out_degree graph q))
                    + (\<Sum>n\<leftarrow>filter (\<lambda>n. out_degree graph n = 0) (dict_keys graph). rank_of ranks n)
                      * dict_get topic_vector p 0))"
      by (simp add: topic_step_def dict_getitem_tab dict_get_tab topic_update_def
            dangling_mass_def rank_of_def)
    fix q assume "q \<in> set (dict_get ?inc p [])"
    with p have "q \<in> set (in_links graph p)" by (simp add: dict_get_tab)
    then show "0 < out_degree graph q" by (rule in_links_out_degree_pos [OF dist])
  qed
  ultimately show ?thesis by blast
qed

text \<open>
  Claim C1 at a graph with a dangling node and a duplicated link, from the uniform rank
  vector, for the node \<^verbatim>\<open>'B'\<close>.
\<close>

theorem topic_iteration_formula_witness:
  "wf_graph [(''A'', [''B'', ''B'']), (''B'', []), (''C'', [''A'', ''D'']), (''D'', [''C''])]
   \<and> (\<exists>incoming new_ranks diff.
      topic_iteration (dict_keys [(''A'', [''B'', ''B'']), (''B'', []), (''C'', [''A'', ''D'']), (''D'', [''C''])])
        (out_degrees [(''A'', [''B'', ''B'']), (''B'', []), (''C'', [''A'', ''D'']), (''D'', [''C''])]
           (dict_keys [(''A'', [''B'', ''B'']), (''B'', []), (''C'', [''A'', ''D'']), (''D'', [''C''])]))
        [(''A'', 1 / 2), (''B'', 1 / 4), (''C'', 1 / 4), (''D'', 0)] (1 / 2)
        [(''A'', [''B'', ''B'']), (''B'', []), (''C'', [''A'', ''D'']), (''D'', [''C''])]
        [(''A'', 1 / 4), (''B'', 1 / 4), (''C'', 1 / 4), (''D'', 1 / 4)]
        = ([(''A'', [''B'', ''B'']), (''B'', []), (''C'', [''A'', ''D'']), (''D'', [''C''])], Inr (new_ranks, diff))
      \<and> build_incoming_links [(''A'', [''B'', ''B'']), (''B'', []), (''C'', [''A'', ''D'']), (''D'', [''C''])]
        = ([(''A'', [''B'', ''B'']), (''B'', []), (''C'', [''A'', ''D'']), (''D'', [''C''])], Inr (incoming, [''A'', ''B'', ''C'', ''D'']))
      \<and> dict_get incoming ''B'' [] = [''A'', ''A'']
      \<and> dict_getitem new_ranks ''B'' = Inr (9 / 32))"
proof -
  let ?g = "[(''A'', [''B'', ''B'']), (''B'', []), (''C'', [''A'', ''D'']), (''D'', [''C''])]"
  let ?r = "[(''A'', 1 / 4), (''B'', 1 / 4), (''C'', 1 / 4), (''D'', 1 / 4 :: real)]"
  let ?tv = "[(''A'', 1 / 2), (''B'', 1 / 4), (''C'', 1 / 4), (''D'', 0 :: real)]"
  have wf: "wf_graph ?g"
    by (simp add: wf_graph_def closed_graph_def dict_keys_def)
  have ks: "set (dict_keys ?g) \<subseteq> set (dict_keys ?r)"
    by (simp add: dict_keys_def)
  have inc: "build_incoming_links ?g = (?g, Inr ([(''A'', [''C'']), (''B'', [''A'', ''A'']), (''C'', [''D'']), (''D'', [''C''])], dict_keys ?g))"
    by code_simp
  from topic_iteration_formula [OF wf ks, of ?tv "1 / 2"]
  obtain incoming new_ranks diff where
    a: "build_incoming_links ?g = (?g, Inr (incoming, dict_keys ?g))"
    and b: "topic_iteration (dict_keys ?g) (out_degrees ?g (dict_keys ?g)) ?tv (1 / 2) ?g ?r
              = (?g, Inr (new_ranks, diff))"
    and c: "\<forall>p \<in> set (dict_keys ?g).
          dict_getitem new_ranks p =
            Inr ((1 - 1 / 2) * dict_get ?tv p 0
                 + 1 / 2 *
                   ((\<Sum>q\<leftarrow>dict_get incoming p []. rank_of ?r q / real (out_degree ?g q))
                    + (\<Sum>n\<leftarrow>filter (\<lambda>n. out_degree ?g n = 0) (dict_keys ?g). rank_of ?r n)
                      * dict_get ?tv p 0))
          \<and> (\<forall>q \<in> set (dict_get incoming p []). 0 < out_degree ?g q)"
    by blast
  from a inc have i: "incoming = [(''A'', [''C'']), (''B'', [''A'', ''A'']), (''C'', [''D'']), (''D'', [''C''])]"
    by simp
  have iB: "dict_get incoming ''B'' [] = [''A'', ''A'']"
    by (simp add: i dict_get_def)
  from c have "dict_getitem new_ranks ''B'' =
            Inr ((1 - 1 / 2) * dict_get ?tv ''B'' 0
                 + 1 / 2 *
                   ((\<Sum>q\<leftarrow>dict_get incoming ''B'' []. rank_of ?r q / real (out_degree ?g q))
                    + (\<Sum>n\<leftarrow>filter (\<lambda>n. out_degree ?g n = 0) (dict_keys ?g). rank_of ?r n)
                      * dict_get ?tv ''B'' 0))"
    by (simp add: dict_keys_def)
  then have nB: "dict_getitem new_ranks ''B'' = Inr (9 / 32)"
    unfolding iB by (simp add: dict_get_def rank_of_def out_degree_def dict_keys_def)
  from a have a': "build_incoming_links ?g = (?g, Inr (incoming, [''A'', ''B'', ''C'', ''D'']))"
    by (simp add: dict_keys_def)
  from wf b a' iB nB show ?thesis by blast
qed

subsection \<open>Ranks are never negative\<close>

text \<open>
  Claim C9: for every graph (link targets are keys), every teleportation vector without
  negative weight and every damping with \<open>0 \<le> damping < 1\<close>, the rank vector after any
  number of iterations of either solver's loop has no negative entry, and neither has the
  mapping the solver returns.
\<close>

theorem ranks_stay_nonnegative:
  assumes "wf_graph graph" and "nonneg_ranks topic_vector"
    and "0 \<le> damping" and "damping < 1"
  shows "(\<forall>n. \<exists>ranks.
            topic_loop n (dict_keys graph) (out_degrees graph (dict_keys graph))
              topic_vector damping tol graph (init_ranks (dict_keys graph)) = (graph, Inr ranks)
            \<and> nonneg_ranks ranks)
       \<and> (\<exists>ranks. topic_pagerank graph pages topic_vector damping tol max_iter
                      = (graph, Inr ranks) \<and> nonneg_ranks ranks)
       \<and> (\<forall>n. \<exists>ranks.
            page_loop n damping tol graph (init_ranks (dict_keys graph)) = Inr ranks
            \<and> nonneg_ranks ranks)
       \<and> (\<exists>ranks. page_rank graph damping max_iter tol = Inr ranks \<and> nonneg_ranks ranks)"
proof -
  let ?init = "init_ranks (dict_keys graph)"
  from assms have d: "0 \<le> damping" "damping \<le> 1" by simp_all
  have ks: "set (dict_keys graph) \<subseteq> set (dict_keys ?init)"
    by (simp add: dict_keys_init_ranks)
  have topic: "nonneg_ranks ((topic_step graph topic_vector damping ^^ k) ?init)" for k
    by (rule iterate_nonneg [OF d assms(2)])
  have classic: "nonneg_ranks ((topic_step graph ?init damping ^^ k) ?init)" for k
    by (rule iterate_nonneg [OF d nonneg_init_ranks])
  have 1: "\<forall>n. \<exists>ranks.
            topic_loop n (dict_keys graph) (out_degrees graph (dict_keys graph))
              topic_vector damping tol graph ?init = (graph, Inr ranks)
            \<and> nonneg_ranks ranks"
    using topic_loop_wf [OF assms(1) ks] topic by blast
  have 2: "\<exists>ranks. topic_pagerank graph pages topic_vector damping tol max_iter
                      = (graph, Inr ranks) \<and> nonneg_ranks ranks"
    by (intro exI conjI, rule topic_pagerank_wf [OF assms(1)],
        rule nonneg_normalize_ranks [OF topic])
  have 3: "\<forall>n. \<exists>ranks.
            page_loop n damping tol graph ?init = Inr ranks \<and> nonneg_ranks ranks"
    using page_loop_wf [OF assms(1) init_ranks_uniform ks] classic by blast
  have 4: "\<exists>ranks. page_rank graph damping max_iter tol = Inr ranks \<and> nonneg_ranks ranks"
    by (intro exI conjI, rule page_rank_wf [OF assms(1) init_ranks_uniform], rule classic)
  from 1 2 3 4 show ?thesis by blast
qed

text \<open>Claim C9 at a graph with a dangling node and a duplicated link.\<close>

theorem ranks_stay_nonnegative_witness:
  "wf_graph [(''A'', [''B'', ''B'']), (''B'', []), (''C'', [''A'', ''D'']), (''D'', [''C''])]
   \<and> nonneg_ranks [(''A'', 1 / 2), (''B'', 1 / 4), (''C'', 1 / 4), (''D'', 0)]
   \<and> (0::real) \<le> 85 / 100 \<and> (85::real) / 100 < 1
   \<and> (\<exists>ranks. topic_pagerank [(''A'', [''B'', ''B'']), (''B'', []), (''C'', [''A'', ''D'']), (''D'', [''C''])] ()
          [(''A'', 1 / 2), (''B'', 1 / 4), (''C'', 1 / 4), (''D'', 0)] (85 / 100) (1 / 1000000) 100
          = ([(''A'', [''B'', ''B'']), (''B'', []), (''C'', [''A'', ''D'']), (''D'', [''C''])], Inr ranks)
        \<and> nonneg_ranks ranks)
   \<and> (\<exists>ranks. page_rank [(''A'', [''B'', ''B'']), (''B'', []), (''C'', [''A'', ''D'']), (''D'', [''C''])]
          (85 / 100) 100 (1 / 1000000) = Inr ranks
        \<and> nonneg_ranks ranks)"
proof -
  let ?g = "[(''A'', [''B'', ''B'']), (''B'', []), (''C'', [''A'', ''D'']), (''D'', [''C''])]"
  let ?tv = "[(''A'', 1 / 2), (''B'', 1 / 4), (''C'', 1 / 4), (''D'', 0 :: real)]"
  have wf: "wf_graph ?g"
    by (simp add: wf_graph_def closed_graph_def dict_keys_def)
  have tv: "nonneg_ranks ?tv"
    by (simp add: nonneg_ranks_def)
  have d: "(0::real) \<le> 85 / 100" "(85::real) / 100 < 1" by simp_all
  from ranks_stay_nonnegative [OF wf tv d, of "1 / 1000000" "()" 100] wf tv d
  show ?thesis by blast
qed

subsection \<open>Duplicated links\<close>

lemma topic_update_items:
  assumes dist: "distinct (dict_keys g)"
  shows "topic_update g tv d ranks p =
     (1 - d) * rank_of tv p
     + d * ((\<Sum>(q, outs)\<leftarrow>g. real (count_list outs p) * (rank_of ranks q / real (length outs)))
            + dangling_mass g ranks * rank_of tv p)"
proof -
  have "(\<Sum>item\<leftarrow>g. real (length (filter ((=) p) (snd item)))
                      * (rank_of ranks (fst item) / real (out_degree g (fst item))))
      = (\<Sum>item\<leftarrow>g. real (count_list (snd item) p)
                      * (rank_of ranks (fst item) / real (length (snd item))))"
  proof (rule sum_list_cong)
    fix item assume "item \<in> set g"
    then have "out_degree g (fst item) = length (snd item)"
      using out_degree_item [OF dist, of "fst item" "snd item"] by simp
    then show "real (length (filter ((=) p) (snd item)))
                      * (rank_of ranks (fst item) / real (out_degree g (fst item)))
      = real (count_list (snd item) p) * (rank_of ranks (fst item) / real (length (snd item)))"
      by (simp add: count_list_filter)
  qed
  then show ?thesis
    by (simp add: topic_update_def sum_in_links case_prod_unfold)
qed

lemma page_update_items:
  assumes wf: "wf_graph g" and p: "p \<in> set (dict_keys g)"
  shows "topic_update g (init_ranks (dict_keys g)) d ranks p =
     (1 - d) / real (length g)
     + (\<Sum>(q, links)\<leftarrow>g.
          if links \<noteq> [] then real (count_list links p) * (d * (rank_of ranks q / real (length links)))
          else d * (rank_of ranks q / real (length g)))"
proof -
  from wf have dist: "distinct (dict_keys g)" by (simp add: wf_graph_def)
  have len: "length (dict_keys g) = length g" by (simp add: dict_keys_def)
  have tv: "rank_of (init_ranks (dict_keys g)) p = 1 / real (length g)"
    by (rule bspec [OF init_ranks_uniform p])
  have "(\<Sum>item\<leftarrow>g. real (length (filter ((=) p) (targets g (snd item))))
                 * (d * (rank_of ranks (fst item) / real (length (targets g (snd item))))))
      = (\<Sum>item\<leftarrow>g.
          if snd item \<noteq> [] then real (count_list (snd item) p)
                 * (d * (rank_of ranks (fst item) / real (length (snd item))))
          else d * (rank_of ranks (fst item) / real (length g)))"
    using len
    by (intro sum_list_cong)
       (simp add: targets_def count_list_filter length_filter_distinct [OF dist p])
  then show ?thesis
    unfolding page_update_eq [OF wf p tv, symmetric]
    by (simp add: case_prod_unfold)
qed

text \<open>
  Claim C10: a target listed more than once counts once per occurrence. For every graph
  (link targets are keys) and rank vector covering the nodes:
  the out-degree of \<open>q\<close> is the length of its outbound list, duplicates included;
  the index \<^verbatim>\<open>build_incoming_links\<close> returns lists \<open>q\<close> under \<open>p\<close> exactly as often as
  \<open>p\<close> occurs in the outbound list of \<open>q\<close>;
  one iteration of \<^verbatim>\<open>topic_pagerank\<close> gives \<open>p\<close> the link share
  \<open>damping * rank(q) / outDegree(q)\<close> once per occurrence of \<open>p\<close> in the list of \<open>q\<close>;
  and one iteration of \<^verbatim>\<open>page_rank\<close> does the same for every page \<open>q\<close> with links (a page
  without links gives \<open>damping * rank(q) / N\<close> to every page).
\<close>

theorem duplicate_links_count_separately:
  assumes "wf_graph graph" and "set (dict_keys graph) \<subseteq> set (dict_keys ranks)"
  shows "(\<forall>(q, outs) \<in> set graph. out_degree graph q = length outs)
     \<and> (\<exists>incoming.
           build_incoming_links graph = (graph, Inr (incoming, dict_keys graph))
         \<and> (\<forall>p \<in> set (dict_keys graph). \<forall>(q, outs) \<in> set graph.
               count_list (dict_get incoming p []) q = count_list outs p))
     \<and> (\<exists>new_ranks diff.
           topic_iteration (dict_keys graph) (out_degrees graph (dict_keys graph))
             topic_vector damping graph ranks = (graph, Inr (new_ranks, diff))
         \<and> (\<forall>p \<in> set (dict_keys graph).
               dict_getitem new_ranks p =
                 Inr ((1 - damping) * dict_get topic_vector p 0
                      + damping *
                        ((\<Sum>(q, outs)\<leftarrow>graph.
                            real (count_list outs p) * (rank_of ranks q / real (length outs)))
                         + (\<Sum>n\<leftarrow>filter (\<lambda>n. out_degree graph n = 0) (dict_keys graph).
                              rank_of ranks n)
                           * dict_get topic_vector p 0))))
     \<and> (\<exists>new_ranks diff.
           page_iteration damping graph ranks = Inr (new_ranks, diff)
         \<and> (\<forall>p \<in> set (dict_keys graph).
               dict_getitem new_ranks p =
                 Inr ((1 - damping) / real (length graph)
                      + (\<Sum>(q, links)\<leftarrow>graph.
                           if links \<noteq> []
                           then real (count_list links p)
                                  * (damping * (rank_of ranks q / real (length links)))
                           else damping * (rank_of ranks q / real (length graph))))))"
proof (intro conjI)
  from assms(1) have dist: "distinct (dict_keys graph)" and closed: "closed_graph graph"
    by (simp_all add: wf_graph_def)
  show "\<forall>(q, outs) \<in> set graph. out_degree graph q = length outs"
    using out_degree_item [OF dist] by blast
  show "\<exists>incoming.
           build_incoming_links graph = (graph, Inr (incoming, dict_keys graph))
         \<and> (\<forall>p \<in> set (dict_keys graph). \<forall>(q, outs) \<in> set graph.
               count_list (dict_get incoming p []) q = count_list outs p)"
  proof (intro exI conjI)
    show "build_incoming_links graph
            = (graph, Inr (tab (dict_keys graph) (in_links graph), dict_keys graph))"
      by (rule build_incoming_links_closed [OF closed])
    show "\<forall>p \<in> set (dict_keys graph). \<forall>(q, outs) \<in> set graph.
            count_list (dict_get (tab (dict_keys graph) (in_links graph)) p []) q
              = count_list outs p"
      using count_in_links [OF dist] by (auto simp: dict_get_tab)
  qed
  show "\<exists>new_ranks diff.
           topic_iteration (dict_keys graph) (out_degrees graph (dict_keys graph))
             topic_vector damping graph ranks = (graph, Inr (new_ranks, diff))
         \<and> (\<forall>p \<in> set (dict_keys graph).
               dict_getitem new_ranks p =
                 Inr ((1 - damping) * dict_get topic_vector p 0
                      + damping *
                        ((\<Sum>(q, outs)\<leftarrow>graph.
                            real (count_list outs p) * (rank_of ranks q / real (length outs)))
                         + (\<Sum>n\<leftarrow>filter (\<lambda>n. out_degree graph n = 0) (dict_keys graph).
                              rank_of ranks n)
                           * dict_get topic_vector p 0)))"
  proof (intro exI conjI)
    show "topic_iteration (dict_keys graph) (out_degrees graph (dict_keys graph))
             topic_vector damping graph ranks
          = (graph, Inr (topic_step graph topic_vector damping ranks,
                l1_diff (dict_keys graph) (topic_step graph topic_vector damping ranks) ranks))"
      by (rule topic_iteration_wf [OF assms])
    show "\<forall>p \<in> set (dict_keys graph).
               dict_getitem (topic_step graph topic_vector damping ranks) p =
                 Inr ((1 - damping) * dict_get topic_vector p 0
                      + damping *
                        ((\<Sum>(q, outs)\<leftarrow>graph.
                            real (count_list outs p) * (rank_of ranks q / real (length outs)))
                         + (\<Sum>n\<leftarrow>filter (\<lambda>n. out_degree graph n = 0) (dict_keys graph).
                              rank_of ranks n)
                           * dict_get topic_vector p 0))"
      by (simp add: topic_step_def dict_getitem_tab topic_update_items [OF dist]
            dangling_mass_def rank_of_def)
  qed
  show "\<exists>new_ranks diff.
           page_iteration damping graph ranks = Inr (new_ranks, diff)
         \<and> (\<forall>p \<in> set (dict_keys graph).
               dict_getitem new_ranks p =
                 Inr ((1 - damping) / real (length graph)
                      + (\<Sum>(q, links)\<leftarrow>graph.
                           if links \<noteq> []
                           then real (count_list links p)
                                  * (damping * (rank_of ranks q / real (length links)))
                           else damping * (rank_of ranks q / real (length graph)))))"
  proof (intro exI conjI)
    let ?u = "init_ranks (dict_keys graph)"
    show "page_iteration damping graph ranks
          = Inr (topic_step graph ?u damping ranks,
                 l1_diff (dict_keys graph) (topic_step graph ?u damping ranks) ranks)"
      by (rule page_iteration_wf [OF assms init_ranks_uniform])
    show "\<forall>p \<in> set (dict_keys graph).
               dict_getitem (topic_step graph ?u damping ranks) p =
                 Inr ((1 - damping) / real (length graph)
                      + (\<Sum>(q, links)\<leftarrow>graph.
                           if links \<noteq> []
                           then real (count_list links p)
                                  * (damping * (rank_of ranks q / real (length links)))
                           else damping * (rank_of ranks q / real (length graph))))"
      by (simp add: topic_step_def dict_getitem_tab page_update_items [OF assms(1)])
  qed
qed

text \<open>Claim C10 at a graph in which \<^verbatim>\<open>'A'\<close> links to \<^verbatim>\<open>'B'\<close> twice.\<close>

theorem duplicate_links_count_separately_witness:
  "wf_graph [(''A'', [''B'', ''B'']), (''B'', []), (''C'', [''A'', ''D'']), (''D'', [''C''])]
   \<and> out_degree [(''A'', [''B'', ''B'']), (''B'', []), (''C'', [''A'', ''D'']), (''D'', [''C''])] ''A'' = 2
   \<and> (\<exists>incoming.
         build_incoming_links [(''A'', [''B'', ''B'']), (''B'', []), (''C'', [''A'', ''D'']), (''D'', [''C''])]
           = ([(''A'', [''B'', ''B'']), (''B'', []), (''C'', [''A'', ''D'']), (''D'', [''C''])],
              Inr (incoming, [''A'', ''B'', ''C'', ''D'']))
       \<and> count_list (dict_get incoming ''B'' []) ''A'' = 2)"
proof -
  let ?g = "[(''A'', [''B'', ''B'']), (''B'', []), (''C'', [''A'', ''D'']), (''D'', [''C''])]"
  let ?r = "[(''A'', 1 / 4), (''B'', 1 / 4), (''C'', 1 / 4), (''D'', 1 / 4 :: real)]"
  have wf: "wf_graph ?g"
    by (simp add: wf_graph_def closed_graph_def dict_keys_def)
  have ks: "set (dict_keys ?g) \<subseteq> set (dict_keys ?r)"
    by (simp add: dict_keys_def)
  note t = duplicate_links_count_separately [OF wf ks]
  from t have deg: "\<forall>(q, outs) \<in> set ?g. out_degree ?g q = length outs"
    by (rule conjunct1)
  from t [THEN conjunct2, THEN conjunct1]
  obtain incoming where
    inc: "build_incoming_links ?g = (?g, Inr (incoming, dict_keys ?g))"
    and cnt: "\<forall>p \<in> set (dict_keys ?g). \<forall>(q, outs) \<in> set ?g.
               count_list (dict_get incoming p []) q = count_list outs p"
    by (elim exE conjE)
  from deg have 1: "out_degree ?g ''A'' = 2" by simp
  from inc have 2: "build_incoming_links ?g = (?g, Inr (incoming, [''A'', ''B'', ''C'', ''D'']))"
    by (simp add: dict_keys_def)
  from cnt have 3: "count_list (dict_get incoming ''B'' []) ''A'' = 2"
    by (simp add: dict_keys_def)
  from wf 1 2 3 show ?thesis by blast
qed

subsection \<open>The topic vector\<close>

lemma dict_setitem_new:
  "k \<notin> set (dict_keys d) \<Longrightarrow> dict_setitem d k v = d @ [(k, v)]"
  by (induction d) (auto simp: dict_keys_def)

lemma score_pages_distinct:
  "distinct (dict_keys v @ dict_keys items) \<Longrightarrow>
   score_pages kws items (v, tot) =
     (v @ map (\<lambda>(pid, meta). (pid, page_weight kws meta)) items,
      tot + (\<Sum>(pid, meta)\<leftarrow>items. page_weight kws meta))"
proof (induction items arbitrary: v tot)
  case Nil
  then show ?case by simp
next
  case (Cons item items)
  obtain pid meta where item: "item = (pid, meta)" by (cases item)
  from Cons.prems item have new: "pid \<notin> set (dict_keys v)"
    by (auto simp: dict_keys_def)
  from Cons.prems item
  have "distinct (dict_keys (v @ [(pid, page_weight kws meta)]) @ dict_keys items)"
    by (auto simp: dict_keys_def)
  from Cons.IH [OF this] show ?case
    by (simp add: item Let_def dict_setitem_new [OF new] algebra_simps)
qed

lemma dict_comp_Inr:
  "(\<And>k. k \<in> set ks \<Longrightarrow> f k = Inr (g k)) \<Longrightarrow> dict_comp f ks = Inr (map (\<lambda>k. (k, g k)) ks)"
  by (induction ks) simp_all

lemma page_weight_nonneg: "0 \<le> page_weight kws meta"
  by (simp add: page_weight_def Let_def)

text \<open>
  Claim C7: for every dictionary of pages and every list of keywords, with the raw weight
  of a page being 1.0 when a keyword occurs in its lower-cased title and content and 0.0
  otherwise: the total of the raw weights is never negative and is zero exactly when no
  page matches; when it is strictly positive \<^verbatim>\<open>build_topic_vector\<close> returns each raw
  weight divided by the total; when it is zero it returns the uniform vector
  \<open>{pid: 1/N}\<close>. It never fails and never returns an all-zero vector for a non-empty
  set of pages.
\<close>

theorem build_topic_vector_weights:
  assumes "distinct (dict_keys pages)"
  shows "let kws = map lower_str topic_keywords;
             tot = (\<Sum>(pid, meta)\<leftarrow>pages. page_weight kws meta)
         in 0 \<le> tot
          \<and> (tot = 0 \<longleftrightarrow> (\<forall>(pid, meta) \<in> set pages. page_weight kws meta = 0))
          \<and> (0 < tot \<longrightarrow>
               build_topic_vector pages topic_keywords
                 = Inr (map (\<lambda>(pid, meta). (pid, page_weight kws meta / tot)) pages))
          \<and> (tot = 0 \<longrightarrow>
               build_topic_vector pages topic_keywords
                 = Inr (map (\<lambda>(pid, meta). (pid, 1 / real (length pages))) pages))"
proof -
  define kws where "kws = map lower_str topic_keywords"
  define tot where "tot = (\<Sum>(pid, meta)\<leftarrow>pages. page_weight kws meta)"
  define v where "v = map (\<lambda>(pid, meta). (pid, page_weight kws meta)) pages"
  have nonneg: "0 \<le> tot"
    unfolding tot_def by (rule sum_list_nonneg) (auto simp: page_weight_nonneg)
  have zero: "tot = 0 \<longleftrightarrow> (\<forall>(pid, meta) \<in> set pages. page_weight kws meta = 0)"
    unfolding tot_def
    by (subst sum_list_nonneg_eq_0_iff) (auto simp: page_weight_nonneg)
  have score: "score_pages kws pages ([], 0) = (v, tot)"
    using assms by (simp add: score_pages_distinct dict_keys_def v_def tot_def)
  have uniform: "dict_comp (\<lambda>pid. Inr (1 / real (length pages))) (dict_keys pages)
                   = Inr (map (\<lambda>(pid, meta). (pid, 1 / real (length pages))) pages)"
    by (simp add: dict_comp_Inr dict_keys_def comp_def case_prod_unfold)
  have weighted: "dict_comp (\<lambda>pid. case dict_getitem v pid of Inl e \<Rightarrow> Inl e
                                       | Inr w \<Rightarrow> Inr (w / tot)) (dict_keys pages)
                   = Inr (map (\<lambda>(pid, meta). (pid, page_weight kws meta / tot)) pages)"
  proof -
    let ?g = "\<lambda>pid. (case map_of pages pid of None \<Rightarrow> 0 | Some meta \<Rightarrow> page_weight kws meta) / tot"
    have get: "(case dict_getitem v pid of Inl e \<Rightarrow> Inl e | Inr w \<Rightarrow> Inr (w / tot)) = Inr (?g pid)"
      if "pid \<in> set (dict_keys pages)" for pid
    proof -
      from that obtain meta where m: "map_of pages pid = Some meta"
        by (cases "map_of pages pid") (auto simp: dict_keys_def map_of_eq_None_iff)
      have "map_of v pid = Some (page_weight kws meta)"
        by (simp add: v_def map_of_map m)
      with m show ?thesis by (simp add: dict_getitem_def)
    qed
    have "map (\<lambda>pid. (pid, ?g pid)) (dict_keys pages)
            = map (\<lambda>(pid, meta). (pid, page_weight kws meta / tot)) pages"
      using assms by (auto simp: dict_keys_def)
    with dict_comp_Inr [of "dict_keys pages" _ ?g, OF get] show ?thesis by simp
  qed
  have pos: "0 < tot \<longrightarrow>
               build_topic_vector pages topic_keywords
                 = Inr (map (\<lambda>(pid, meta). (pid, page_weight kws meta / tot)) pages)"
    by (simp add: build_topic_vector_def kws_def [symmetric] score weighted Let_def)
  have null: "tot = 0 \<longrightarrow>
               build_topic_vector pages topic_keywords
                 = Inr (map (\<lambda>(pid, meta). (pid, 1 / real (length pages))) pages)"
    by (simp add: build_topic_vector_def kws_def [symmetric] score uniform Let_def)
  from nonneg zero pos null
  have "0 \<le> tot
          \<and> (tot = 0 \<longleftrightarrow> (\<forall>(pid, meta) \<in> set pages. page_weight kws meta = 0))
          \<and> (0 < tot \<longrightarrow>
               build_topic_vector pages topic_keywords
                 = Inr (map (\<lambda>(pid, meta). (pid, page_weight kws meta / tot)) pages))
          \<and> (tot = 0 \<longrightarrow>
               build_topic_vector pages topic_keywords
                 = Inr (map (\<lambda>(pid, meta). (pid, 1 / real (length pages))) pages))"
    by (intro conjI)
  then show ?thesis
    by (simp add: Let_def kws_def tot_def)
qed

text \<open>Claim C7 on two pages, with a keyword that matches one page and one that matches none.\<close>

theorem build_topic_vector_weights_witness:
  "distinct (dict_keys [(''1'', [(''title'', ''Machine Learning''), (''content'', ''intro'')]),
                        (''2'', [(''title'', ''Cooking'')])])
   \<and> build_topic_vector [(''1'', [(''title'', ''Machine Learning''), (''content'', ''intro'')]),
                          (''2'', [(''title'', ''Cooking'')])] [''LEARN'']
       = Inr [(''1'', 1), (''2'', 0)]
   \<and> build_topic_vector [(''1'', [(''title'', ''Machine Learning''), (''content'', ''intro'')]),
                          (''2'', [(''title'', ''Cooking'')])] [''pagerank'']
       = Inr [(''1'', 1 / 2), (''2'', 1 / 2)]"
proof -
  let ?pages = "[(''1'', [(''title'', ''Machine Learning''), (''content'', ''intro'')]),
                 (''2'', [(''title'', ''Cooking'')])]"
  have dist: "distinct (dict_keys ?pages)" by (simp add: dict_keys_def)
  have w1: "page_weight [lower_str ''LEARN''] [(''title'', ''Machine Learning''), (''content'', ''intro'')] = 1"
    by code_simp
  have w2: "page_weight [lower_str ''LEARN''] [(''title'', ''Cooking'')] = 0"
    by code_simp
  have w3: "page_weight [lower_str ''pagerank''] [(''title'', ''Machine Learning''), (''content'', ''intro'')] = 0"
    by code_simp
  have w4: "page_weight [lower_str ''pagerank''] [(''title'', ''Cooking'')] = 0"
    by code_simp
  from build_topic_vector_weights [OF dist, of "[''LEARN'']"]
  have a: "build_topic_vector ?pages [''LEARN''] = Inr [(''1'', 1), (''2'', 0)]"
    unfolding Let_def by (simp add: w1 w2)
  from build_topic_vector_weights [OF dist, of "[''pagerank'']"]
  have b: "build_topic_vector ?pages [''pagerank''] = Inr [(''1'', 1 / 2), (''2'', 1 / 2)]"
    unfolding Let_def by (simp add: w3 w4)
  from dist a b show ?thesis by blast
qed

subsection \<open>Link targets that are no keys of the graph\<close>

text \<open>
  On the graph \<^verbatim>\<open>{'A': ['B']}\<close>, whose target \<^verbatim>\<open>'B'\<close> is no key,
  \<^verbatim>\<open>topic_pagerank\<close> adds the key \<^verbatim>\<open>'B'\<close> to the graph while it iterates over it
  and ends with \<^verbatim>\<open>RuntimeError\<close>; \<^verbatim>\<open>page_rank\<close> ends with \<^verbatim>\<open>KeyError\<close> at
  \<^verbatim>\<open>new_ranks['B'] += ...\<close>.
\<close>

lemma missing_target_example:
  "topic_pagerank [(''A'', [''B''])] () [(''A'', 1)] (85 / 100) (1 / 1000000) 100
     = ([(''A'', [''B'']), (''B'', [])], Inl RuntimeError)
   \<and> page_rank [(''A'', [''B''])] (85 / 100) 100 (1 / 1000000) = Inl KeyError"
  by code_simp

lemma dict_keys_append_at: "dict_keys (append_at inc dst src) = dict_keys inc"
  by (simp add: append_at_def dict_keys_def comp_def case_prod_unfold)

lemma dict_keys_setdefault:
  "dict_keys (dict_setdefault d k v)
     = (if k \<in> set (dict_keys d) then dict_keys d else dict_keys d @ [k])"
  by (simp add: dict_setdefault_def dict_keys_def)

lemma scan_outs_grows:
  "dict_keys inc = dict_keys g \<Longrightarrow> scan_outs src outs (g, inc) = (g', inc') \<Longrightarrow>
   dict_keys inc' = dict_keys g' \<and> length g \<le> length g'
   \<and> (\<not> set outs \<subseteq> set (dict_keys g) \<longrightarrow> length g < length g')"
proof (induction outs arbitrary: g inc)
  case Nil
  then show ?case by simp
next
  case (Cons dst outs)
  show ?case
  proof (cases "dst \<in> set (dict_keys inc)")
    case True
    with Cons.prems have run: "scan_outs src outs (g, append_at inc dst src) = (g', inc')"
      by simp
    have "dict_keys (append_at inc dst src) = dict_keys g"
      using Cons.prems(1) by (simp add: dict_keys_append_at)
    from Cons.IH [OF this run] True Cons.prems(1) show ?thesis by simp
  next
    case False
    let ?g = "dict_setdefault g dst []"
    let ?inc = "append_at (dict_setdefault inc dst []) dst src"
    from False Cons.prems have run: "scan_outs src outs (?g, ?inc) = (g', inc')"
      by simp
    from False Cons.prems(1) have g: "?g = g @ [(dst, [])]"
      by (simp add: dict_setdefault_def)
    have "dict_keys ?inc = dict_keys ?g"
      using False Cons.prems(1) by (simp add: dict_keys_append_at dict_keys_setdefault)
    from Cons.IH [OF this run] have "dict_keys inc' = dict_keys g'" "length ?g \<le> length g'"
      by simp_all
    then show ?thesis by (simp add: g)
  qed
qed

lemma scan_items_changed:
  "length g \<noteq> used \<Longrightarrow> scan_items used items (g, inc) = (g, Inl RuntimeError)"
  by (cases items) auto

lemma scan_items_unclosed:
  "\<exists>(src, outs) \<in> set items. \<not> set outs \<subseteq> set (dict_keys g) \<Longrightarrow> length g = used \<Longrightarrow>
   dict_keys inc = dict_keys g \<Longrightarrow>
   snd (scan_items used items (g, inc)) = Inl RuntimeError"
proof (induction items arbitrary: g inc)
  case Nil
  then show ?case by simp
next
  case (Cons item items)
  obtain src outs where item: "item = (src, outs)" by (cases item)
  obtain g' inc' where run: "scan_outs src outs (g, inc) = (g', inc')"
    by (cases "scan_outs src outs (g, inc)")
  note grow = scan_outs_grows [OF Cons.prems(3) run]
  show ?case
  proof (cases "set outs \<subseteq> set (dict_keys g)")
    case True
    then have "scan_outs src outs (g, inc) = (g, foldl (\<lambda>i dst. append_at i dst src) inc outs)"
      using Cons.prems(3)
    proof (induction outs arbitrary: inc)
      case Nil
      then show ?case by simp
    next
      case (Cons dst outs)
      then show ?case by (simp add: dict_keys_append_at)
    qed
    with run have same: "g' = g" by simp
    from Cons.prems(1) item True
    have rest: "\<exists>(src, outs) \<in> set items. \<not> set outs \<subseteq> set (dict_keys g)" by auto
    from grow same have keys: "dict_keys inc' = dict_keys g" by simp
    from Cons.IH [OF rest Cons.prems(2) keys] show ?thesis
      using Cons.prems(2) by (simp add: item run same)
  next
    case False
    with grow have "length g' \<noteq> used" using Cons.prems(2) by simp
    then show ?thesis
      using Cons.prems(2) by (simp add: item run scan_items_changed)
  qed
qed

lemma build_incoming_links_unclosed:
  "\<not> closed_graph g \<Longrightarrow> snd (build_incoming_links g) = Inl RuntimeError"
proof -
  assume "\<not> closed_graph g"
  then have bad: "\<exists>(src, outs) \<in> set g. \<not> set outs \<subseteq> set (dict_keys g)"
    by (auto simp: closed_graph_iff)
  have keys: "dict_keys (map (\<lambda>n. (n, [])) (dict_keys g)) = dict_keys g"
    by (simp add: dict_keys_def comp_def)
  obtain g' where "scan_items (length g) g (g, map (\<lambda>n. (n, [])) (dict_keys g))
                     = (g', Inl RuntimeError)"
    using scan_items_unclosed [OF bad refl keys]
    by (cases "scan_items (length g) g (g, map (\<lambda>n. (n, [])) (dict_keys g))") simp
  then show ?thesis
    by (simp add: build_incoming_links_def Let_def)
qed

lemma topic_pagerank_unclosed:
  assumes "\<not> closed_graph g" and "0 < max_iter"
  shows "snd (topic_pagerank g pages tv d tol max_iter) = Inl RuntimeError"
proof -
  let ?init = "init_ranks (dict_keys g)"
  from assms(2) obtain k where k: "nat max_iter = Suc k" by (cases "nat max_iter") auto
  have "set (dict_keys g) \<subseteq> set (dict_keys ?init)" by (simp add: dict_keys_init_ranks)
  then have ds: "dangling_sum ?init (out_degrees g (dict_keys g)) = Inr (dangling_mass g ?init)"
    by (rule dangling_sum_Inr)
  obtain g' where bil: "build_incoming_links g = (g', Inl RuntimeError)"
    using build_incoming_links_unclosed [OF assms(1)]
    by (cases "build_incoming_links g") simp
  have it: "topic_iteration (dict_keys g) (out_degrees g (dict_keys g)) tv d g ?init
          = (g', Inl RuntimeError)"
    by (simp add: topic_iteration_def ds bil)
  have "topic_loop (Suc k) (dict_keys g) (out_degrees g (dict_keys g)) tv d tol g ?init
          = (g', Inl RuntimeError)"
    by (simp add: it)
  then show ?thesis
    by (simp add: topic_pagerank_def Let_def k)
qed

lemma add_share_missing:
  assumes "distinct ks"
  shows "\<not> set ts \<subseteq> set ks \<Longrightarrow> add_share x ts (tab ks h) = Inl KeyError"
proof (induction ts arbitrary: h)
  case Nil
  then show ?case by simp
next
  case (Cons t ts)
  show ?case
  proof (cases "t \<in> set ks")
    case True
    with Cons.prems have "\<not> set ts \<subseteq> set ks" by simp
    from Cons.IH [OF this] show ?thesis
      by (simp add: dict_iadd_tab [OF assms True])
  next
    case False
    then show ?thesis
      by (simp add: dict_iadd_def dict_getitem_def map_of_tab)
  qed
qed

lemma distribute_Cons:
  "distribute d g ranks (item # items) nr =
     (case distribute d g ranks [item] nr of
        Inl e \<Rightarrow> Inl e
      | Inr nr' \<Rightarrow> distribute d g ranks items nr')"
  by (cases item) (simp split: sum.splits)

lemma distribute_unclosed:
  assumes dist: "distinct (dict_keys g)"
  shows "\<forall>(q, links) \<in> set items. q \<in> set (dict_keys ranks) \<Longrightarrow>
     \<exists>(q, links) \<in> set items. \<not> set links \<subseteq> set (dict_keys g) \<Longrightarrow>
     distribute d g ranks items (tab (dict_keys g) h) = Inl KeyError"
proof (induction items arbitrary: h)
  case Nil
  then show ?case by simp
next
  case (Cons item items)
  obtain q links where item: "item = (q, links)" by (cases item)
  from Cons.prems(1) item have q: "q \<in> set (dict_keys ranks)"
    and rest: "\<forall>(q, links) \<in> set items. q \<in> set (dict_keys ranks)" by simp_all
  show ?case
  proof (cases "set links \<subseteq> set (dict_keys g)")
    case True
    with q have one: "\<forall>(q, links) \<in> set [item]. set links \<subseteq> set (dict_keys g)
                        \<and> q \<in> set (dict_keys ranks)"
      by (simp add: item)
    from Cons.prems(2) item True
    have bad: "\<exists>(q, links) \<in> set items. \<not> set links \<subseteq> set (dict_keys g)" by auto
    show ?thesis
      by (subst distribute_Cons)
         (simp add: distribute_tab [OF dist one] Cons.IH [OF rest bad])
  next
    case False
    then have "links \<noteq> []" by auto
    with False show ?thesis
      by (simp add: item dict_getitem_rank_of [OF q] add_share_missing [OF dist])
  qed
qed

lemma page_rank_unclosed:
  assumes dist: "distinct (dict_keys g)" and bad: "\<not> closed_graph g" and "0 < max_iterations"
  shows "page_rank g d max_iterations tol = Inl KeyError"
proof -
  let ?init = "init_ranks (dict_keys g)"
  from assms(3) obtain k where k: "nat max_iterations = Suc k"
    by (cases "nat max_iterations") auto
  have keys: "\<forall>(q, links) \<in> set g. q \<in> set (dict_keys ?init)"
    unfolding dict_keys_init_ranks by (force simp: dict_keys_def)
  from bad have ex: "\<exists>(q, links) \<in> set g. \<not> set links \<subseteq> set (dict_keys g)"
    by (auto simp: closed_graph_iff)
  have base: "map (\<lambda>page. (page, (1 - d) / real (length g))) (dict_keys g)
                = tab (dict_keys g) (\<lambda>page. (1 - d) / real (length g))"
    by (simp add: tab_def)
  have "page_iteration d g ?init = Inl KeyError"
    unfolding page_iteration_def Let_def base
    by (simp add: distribute_unclosed [OF dist keys ex])
  then show ?thesis
    by (simp add: page_rank_def Let_def k)
qed

text \<open>
  Claim C5: a link target that is no key of the graph is accepted as a node with an empty
  outbound list, is ranked, and the solver does not fail. The programs do the opposite on
  every such input: for every graph (a dictionary) with a link target that is no key and
  every iteration budget of at least 1, \<^verbatim>\<open>topic_pagerank\<close> ends with \<^verbatim>\<open>RuntimeError\<close>
  (\<^verbatim>\<open>build_incoming_links\<close> adds the target to the graph it is iterating over) and
  \<^verbatim>\<open>page_rank\<close> ends with \<^verbatim>\<open>KeyError\<close>; neither returns a rank mapping.
\<close>

theorem missing_target_always_raises:
  assumes "distinct (dict_keys graph)" and "\<not> closed_graph graph" and "0 < max_iter"
  shows "snd (topic_pagerank graph pages topic_vector damping tol max_iter) = Inl RuntimeError
       \<and> page_rank graph damping max_iter tol = Inl KeyError"
  using topic_pagerank_unclosed [OF assms(2,3)] page_rank_unclosed [OF assms]
  by (rule conjI)

text \<open>Claim C5 at the graph \<^verbatim>\<open>{'A': ['B']}\<close>.\<close>

theorem missing_target_always_raises_witness:
  "distinct (dict_keys [(''A'', [''B''])]) \<and> \<not> closed_graph [(''A'', [''B''])]
   \<and> (0::int) < 100
   \<and> snd (topic_pagerank [(''A'', [''B''])] () [(''A'', 1)] (85 / 100) (1 / 1000000) 100)
       = Inl RuntimeError
   \<and> page_rank [(''A'', [''B''])] (85 / 100) 100 (1 / 1000000) = Inl KeyError"
proof -
  have d: "distinct (dict_keys [(''A'', [''B''])])"
    by (simp add: dict_keys_def)
  have c: "\<not> closed_graph [(''A'', [''B''])]"
    by (simp add: closed_graph_def dict_keys_def)
  have m: "(0::int) < 100" by simp
  show ?thesis
    by (intro conjI d c m
          missing_target_always_raises [OF d c m, THEN conjunct1]
          missing_target_always_raises [OF d c m, THEN conjunct2])
qed

subsection \<open>Without rounding, the rounded solvers are the exact ones\<close>

lemma sum_gen_r_exact: "sum_gen_r (\<lambda>x. x) f xs acc = sum_gen f xs acc"
  by (induction xs arbitrary: acc) (simp_all split: sum.splits)

lemma dict_iadd_r_exact: "dict_iadd_r (\<lambda>x. x) d k x = dict_iadd d k x"
  by (simp add: dict_iadd_r_def dict_iadd_def)

lemma rank_sum_r_exact:
  "rank_sum_r (\<lambda>x. x) ranks od qs acc = rank_sum ranks od qs acc"
  by (induction qs arbitrary: acc) (simp_all add: Let_def split: sum.splits)

lemma add_contributions_r_exact:
  "add_contributions_r (\<lambda>x. x) ranks od incoming tv d dsum ps new_ranks
     = add_contributions ranks od incoming tv d dsum ps new_ranks"
  by (induction ps arbitrary: new_ranks)
     (simp_all add: rank_sum_r_exact dict_iadd_r_exact split: sum.splits)

lemma abs_change_r_exact: "abs_change_r (\<lambda>x. x) new_ranks ranks = abs_change new_ranks ranks"
  by (rule ext) (simp add: abs_change_r_def abs_change_def)

lemma foldl_add: "foldl (\<lambda>acc v. acc + v) acc vs = acc + sum_list (vs :: real list)"
  by (induction vs arbitrary: acc) simp_all

lemma normalize_ranks_r_exact: "normalize_ranks_r (\<lambda>x. x) ranks = normalize_ranks ranks"
  by (simp add: normalize_ranks_r_def normalize_ranks_def foldl_add)

lemma init_ranks_r_exact: "init_ranks_r (\<lambda>x. x) nodes = init_ranks nodes"
  by (simp add: init_ranks_r_def init_ranks_def)

lemma add_share_r_exact: "add_share_r (\<lambda>x. x) x ts new_ranks = add_share x ts new_ranks"
  by (induction ts arbitrary: new_ranks) (simp_all add: dict_iadd_r_exact split: sum.splits)

lemma distribute_r_exact:
  "distribute_r (\<lambda>x. x) d graph ranks items new_ranks = distribute d graph ranks items new_ranks"
  by (induction items arbitrary: new_ranks)
     (auto simp: add_share_r_exact split: sum.splits)

lemma exact_parts:
  "sum_gen_r (\<lambda>x. x) = sum_gen"
  "add_contributions_r (\<lambda>x. x) = add_contributions"
  "teleport_base_r (\<lambda>x. x) = teleport_base"
  "dangling_sum_r (\<lambda>x. x) = dangling_sum"
  "distribute_r (\<lambda>x. x) = distribute"
  by (intro ext, simp add: sum_gen_r_exact add_contributions_r_exact teleport_base_r_def
        teleport_base_def dangling_sum_r_def dangling_sum_def distribute_r_exact)+

lemma topic_iteration_r_exact:
  "topic_iteration_r (\<lambda>x. x) nodes od tv d graph ranks = topic_iteration nodes od tv d graph ranks"
  unfolding topic_iteration_r_def topic_iteration_def exact_parts abs_change_r_exact
  by (rule refl)

lemma topic_loop_r_exact:
  "topic_loop_r (\<lambda>x. x) k nodes od tv d tol graph ranks = topic_loop k nodes od tv d tol graph ranks"
  by (induction k arbitrary: graph ranks)
     (simp_all add: topic_iteration_r_exact split: prod.splits sum.splits)

lemma page_iteration_r_exact:
  "page_iteration_r (\<lambda>x. x) d graph ranks = page_iteration d graph ranks"
  unfolding page_iteration_r_def page_iteration_def exact_parts abs_change_r_exact
  by (rule refl)

lemma page_loop_r_exact:
  "page_loop_r (\<lambda>x. x) k d tol graph ranks = page_loop k d tol graph ranks"
  by (induction k arbitrary: ranks)
     (simp_all add: page_iteration_r_exact split: prod.splits sum.splits)

lemma exact_solvers:
  "topic_pagerank_r (\<lambda>x. x) graph pages topic_vector damping tol max_iter
     = topic_pagerank graph pages topic_vector damping tol max_iter"
  "page_rank_r (\<lambda>x. x) graph damping max_iter tol = page_rank graph damping max_iter tol"
  by (simp_all add: topic_pagerank_r_def topic_pagerank_def page_rank_r_def page_rank_def
        init_ranks_r_exact topic_loop_r_exact normalize_ranks_r_exact page_loop_r_exact)

lemma round_double_minus: "round_double (- x) = - round_double x"
  by (simp add: round_double_def Let_def)

subsection \<open>Roundings that occur in the double-precision runs below\<close>

text \<open>
  Each of these is one rounding step, evaluated from the definition of \<open>round_double\<close>.
  The first arguments are the exact results of the operations performed in the three runs.
\<close>

lemma rd_1: "round_double (1) = 1"
  unfolding round_double_def floor_log2_def Let_def
  by (simp add: pow2_def round_half_even_def bit_length.simps Let_def)

lemma rd_2: "round_double (2) = 2"
  unfolding round_double_def floor_log2_def Let_def
  by (simp add: pow2_def round_half_even_def bit_length.simps Let_def)

lemma rd_3: "round_double (1 / 2) = 1 / 2"
  unfolding round_double_def floor_log2_def Let_def
  by (simp add: pow2_def round_half_even_def bit_length.simps Let_def)

lemma rd_4: "round_double (1 / 4) = 1 / 4"
  unfolding round_double_def floor_log2_def Let_def
  by (simp add: pow2_def round_half_even_def bit_length.simps Let_def)

lemma rd_5: "round_double (3 / 4) = 3 / 4"
  unfolding round_double_def floor_log2_def Let_def
  by (simp add: pow2_def round_half_even_def bit_length.simps Let_def)

lemma rd_6: "round_double (17 / 20) = 7656119366529843 / 9007199254740992"
  unfolding round_double_def floor_log2_def Let_def
  by (simp add: pow2_def round_half_even_def bit_length.simps Let_def)

lemma rd_7: "round_double (17 / 40) = 7656119366529843 / 18014398509481984"
  unfolding round_double_def floor_log2_def Let_def
  by (simp add: pow2_def round_half_even_def bit_length.simps Let_def)

lemma rd_8: "round_double (1 / 1000000) = 4722366482869645 / 4722366482869645213696"
  unfolding round_double_def floor_log2_def Let_def
  by (simp add: pow2_def round_half_even_def bit_length.simps Let_def)

lemma rd_9: "round_double (203365670673449 / 2251799813685248) = 203365670673449 / 2251799813685248"
  unfolding round_double_def floor_log2_def Let_def
  by (simp add: pow2_def round_half_even_def bit_length.simps Let_def)

lemma rd_10: "round_double (478507460408115 / 2251799813685248) = 478507460408115 / 2251799813685248"
  unfolding round_double_def floor_log2_def Let_def
  by (simp add: pow2_def round_half_even_def bit_length.simps Let_def)

lemma rd_11: "round_double (1914029841632461 / 4503599627370496) = 1914029841632461 / 4503599627370496"
  unfolding round_double_def floor_log2_def Let_def
  by (simp add: pow2_def round_half_even_def bit_length.simps Let_def)

lemma rd_12: "round_double (2589569785738035 / 9007199254740991) = 5179139571476071 / 18014398509481984"
  unfolding round_double_def floor_log2_def Let_def
  by (simp add: pow2_def round_half_even_def bit_length.simps Let_def)

lemma rd_13: "round_double (6417629469002956 / 9007199254740991) = 6417629469002957 / 9007199254740992"
  unfolding round_double_def floor_log2_def Let_def
  by (simp add: pow2_def round_half_even_def bit_length.simps Let_def)

lemma rd_14: "round_double (- (1914029841632461 / 9007199254740992)) = - (1914029841632461 / 9007199254740992)"
  unfolding round_double_def floor_log2_def Let_def
  by (simp add: pow2_def round_half_even_def bit_length.simps Let_def)

lemma rd_15: "round_double (- (813462682693797 / 9007199254740992)) = - (813462682693797 / 9007199254740992)"
  unfolding round_double_def floor_log2_def Let_def
  by (simp add: pow2_def round_half_even_def bit_length.simps Let_def)

lemma rd_16: "round_double (1351079888211149 / 9007199254740992) = 1351079888211149 / 9007199254740992"
  unfolding round_double_def floor_log2_def Let_def
  by (simp add: pow2_def round_half_even_def bit_length.simps Let_def)

lemma rd_17: "round_double (1626925365387593 / 9007199254740992) = 1626925365387593 / 9007199254740992"
  unfolding round_double_def floor_log2_def Let_def
  by (simp add: pow2_def round_half_even_def bit_length.simps Let_def)

lemma rd_18: "round_double (1914029841632461 / 9007199254740992) = 1914029841632461 / 9007199254740992"
  unfolding round_double_def floor_log2_def Let_def
  by (simp add: pow2_def round_half_even_def bit_length.simps Let_def)

lemma rd_19: "round_double (2589569785738035 / 9007199254740992) = 2589569785738035 / 9007199254740992"
  unfolding round_double_def floor_log2_def Let_def
  by (simp add: pow2_def round_half_even_def bit_length.simps Let_def)

lemma rd_20: "round_double (3403032468431831 / 9007199254740992) = 3403032468431831 / 9007199254740992"
  unfolding round_double_def floor_log2_def Let_def
  by (simp add: pow2_def round_half_even_def bit_length.simps Let_def)

lemma rd_21: "round_double (3828059683264921 / 9007199254740992) = 3828059683264921 / 9007199254740992"
  unfolding round_double_def floor_log2_def Let_def
  by (simp add: pow2_def round_half_even_def bit_length.simps Let_def)

lemma rd_22: "round_double (9007199254740991 / 9007199254740992) = 9007199254740991 / 9007199254740992"
  unfolding round_double_def floor_log2_def Let_def
  by (simp add: pow2_def round_half_even_def bit_length.simps Let_def)

lemma rd_23: "round_double (1351079888211149 / 18014398509481984) = 1351079888211149 / 18014398509481984"
  unfolding round_double_def floor_log2_def Let_def
  by (simp add: pow2_def round_half_even_def bit_length.simps Let_def)

lemma rd_24: "round_double (6417629469002957 / 18014398509481984) = 6417629469002957 / 18014398509481984"
  unfolding round_double_def floor_log2_def Let_def
  by (simp add: pow2_def round_half_even_def bit_length.simps Let_def)

lemma rd_25: "round_double (7656119366529843 / 18014398509481984) = 7656119366529843 / 18014398509481984"
  unfolding round_double_def floor_log2_def Let_def
  by (simp add: pow2_def round_half_even_def bit_length.simps Let_def)

lemma rd_26: "round_double (11208333572618321 / 18014398509481984) = 700520848288645 / 1125899906842624"
  unfolding round_double_def floor_log2_def Let_def
  by (simp add: pow2_def round_half_even_def bit_length.simps Let_def)

lemma rd_27: "round_double (12835258938005913 / 18014398509481984) = 1604407367250739 / 2251799813685248"
  unfolding round_double_def floor_log2_def Let_def
  by (simp add: pow2_def round_half_even_def bit_length.simps Let_def)

lemma rd_28: "round_double (7656119366529843 / 36028797018963968) = 7656119366529843 / 36028797018963968"
  unfolding round_double_def floor_log2_def Let_def
  by (simp add: pow2_def round_half_even_def bit_length.simps Let_def)

lemma rd_29: "round_double (10358279142952141 / 36028797018963968) = 2589569785738035 / 9007199254740992"
  unfolding round_double_def floor_log2_def Let_def
  by (simp add: pow2_def round_half_even_def bit_length.simps Let_def)

lemma rd_30: "round_double (11506697047931617 / 36028797018963968) = 359584282747863 / 1125899906842624"
  unfolding round_double_def floor_log2_def Let_def
  by (simp add: pow2_def round_half_even_def bit_length.simps Let_def)

lemma rd_31: "round_double (22968358099589529 / 36028797018963968) = 2871044762448691 / 4503599627370496"
  unfolding round_double_def floor_log2_def Let_def
  by (simp add: pow2_def round_half_even_def bit_length.simps Let_def)

lemma rd_32: "round_double (25670517876011827 / 36028797018963968) = 6417629469002957 / 9007199254740992"
  unfolding round_double_def floor_log2_def Let_def
  by (simp add: pow2_def round_half_even_def bit_length.simps Let_def)

lemma rd_33: "round_double (19826055387569505790270607678505 / 81129638414606681695789005144064) = 8804537271509319 / 36028797018963968"
  unfolding round_double_def floor_log2_def Let_def
  by (simp add: pow2_def round_half_even_def bit_length.simps Let_def)

lemma rd_34: "round_double (49134137264846171849710195745751 / 162259276829213363391578010288128) = 5454985048652513 / 18014398509481984"
  unfolding round_double_def floor_log2_def Let_def
  by (simp add: pow2_def round_half_even_def bit_length.simps Let_def)

lemmas rd_facts = rd_1 rd_2 rd_3 rd_4 rd_5 rd_6 rd_7 rd_8 rd_9 rd_10 rd_11 rd_12 rd_13 rd_14 rd_15 rd_16 rd_17 rd_18 rd_19 rd_20 rd_21 rd_22 rd_23 rd_24 rd_25 rd_26 rd_27 rd_28 rd_29 rd_30 rd_31 rd_32 rd_33 rd_34

subsection \<open>Uniform teleportation and classic PageRank\<close>

lemma topic_run_doubles:
  "topic_pagerank_r round_double [(''A'', [''B'']), (''B'', [])] ()
     [(''A'', 1 / 2), (''B'', 1 / 2)] (round_double (85 / 100)) (round_double (425 / 1000)) 2
   = ([(''A'', [''B'']), (''B'', [])],
      Inr [(''A'', 5179139571476071 / 18014398509481984),
           (''B'', 6417629469002957 / 9007199254740992)])"
  by (simp add: topic_pagerank_r_def init_ranks_r_def out_degrees_def
        dict_keys_def dict_values_def dict_get_def dict_getitem_def topic_iteration_r_def
        dangling_sum_r_def teleport_base_r_def build_incoming_links_def
        append_at_def dict_setdefault_def dict_iadd_r_def abs_change_r_def
        normalize_ranks_r_def Let_def eval_nat_numeral rd_facts)

lemma classic_run_doubles:
  "page_rank_r round_double [(''A'', [''B'']), (''B'', [])]
     (round_double (85 / 100)) 2 (round_double (425 / 1000))
   = Inr [(''A'', 3403032468431831 / 9007199254740992),
          (''B'', 700520848288645 / 1125899906842624)]"
  by (simp add: page_rank_r_def init_ranks_r_def dict_keys_def dict_getitem_def
        page_iteration_r_def dict_iadd_r_def abs_change_r_def Let_def eval_nat_numeral
        rd_facts)

text \<open>
  Claim C2, as stated: with the uniform teleportation vector \<^verbatim>\<open>topic_pagerank\<close> returns the
  same rank mapping as \<^verbatim>\<open>page_rank\<close>. In double precision it does not: on the graph
  \<^verbatim>\<open>{'A': ['B'], 'B': []}\<close> with the vector \<^verbatim>\<open>{'A': 0.5, 'B': 0.5}\<close>, damping
  \<^verbatim>\<open>0.85\<close>, tolerance \<^verbatim>\<open>0.425\<close> and a budget of 2, the first iteration of
  \<^verbatim>\<open>topic_pagerank\<close> has a difference just below the tolerance and the solver stops
  (returning about 0.2875 and 0.7125), while the same difference comes out just above the
  tolerance in \<^verbatim>\<open>page_rank\<close>, which runs a second iteration (returning about 0.3778 and
  0.6222).
\<close>

theorem uniform_equivalence_fails_in_doubles:
  "topic_pagerank_r round_double [(''A'', [''B'']), (''B'', [])] ()
     [(''A'', 1 / 2), (''B'', 1 / 2)] (round_double (85 / 100)) (round_double (425 / 1000)) 2
   = ([(''A'', [''B'']), (''B'', [])],
      Inr [(''A'', 5179139571476071 / 18014398509481984),
           (''B'', 6417629469002957 / 9007199254740992)])
   \<and> page_rank_r round_double [(''A'', [''B'']), (''B'', [])]
       (round_double (85 / 100)) 2 (round_double (425 / 1000))
     = Inr [(''A'', 3403032468431831 / 9007199254740992),
            (''B'', 700520848288645 / 1125899906842624)]
   \<and> snd (topic_pagerank_r round_double [(''A'', [''B'']), (''B'', [])] ()
            [(''A'', 1 / 2), (''B'', 1 / 2)] (round_double (85 / 100))
            (round_double (425 / 1000)) 2)
     \<noteq> page_rank_r round_double [(''A'', [''B'']), (''B'', [])]
         (round_double (85 / 100)) 2 (round_double (425 / 1000))"
  unfolding topic_run_doubles classic_run_doubles by simp

text \<open>
  Claim C2, amended: when every arithmetic operation is exact, for every non-empty graph
  whose link targets all appear as keys, and the same damping, tolerance and iteration
  budget, \<^verbatim>\<open>topic_pagerank\<close> called with a teleportation vector that weights every node
  1/N and \<^verbatim>\<open>page_rank\<close> both return normally, with the same rank mapping over the nodes
  of the graph.
\<close>

theorem uniform_topic_pagerank_eq_page_rank_exact:
  assumes "wf_graph graph" and "graph \<noteq> []"
    and "\<forall>p \<in> set (dict_keys graph). dict_get topic_vector p 0 = 1 / real (length graph)"
  shows "\<exists>ranks.
      topic_pagerank graph pages topic_vector damping tol max_iter = (graph, Inr ranks)
    \<and> page_rank graph damping max_iter tol = Inr ranks
    \<and> dict_keys ranks = dict_keys graph"
proof -
  let ?init = "init_ranks (dict_keys graph)"
  let ?k = "iterations_run (nat max_iter) graph topic_vector damping tol ?init"
  let ?r = "(topic_step graph topic_vector damping ^^ ?k) ?init"
  from assms(3)
  have tv: "\<forall>p \<in> set (dict_keys graph). rank_of topic_vector p = 1 / real (length graph)"
    by (simp add: rank_of_def)
  have one: "(\<Sum>p\<leftarrow>dict_keys graph. rank_of topic_vector p) = 1"
    by (rule uniform_sum [OF assms(2) tv])
  note inv = iterate_sum [OF assms(1,2) one, where d = damping and k = ?k]
  have "topic_pagerank graph pages topic_vector damping tol max_iter = (graph, Inr ?r)"
    unfolding topic_pagerank_wf [OF assms(1)]
    using inv by (simp add: normalize_ranks_unit)
  moreover have "page_rank graph damping max_iter tol = Inr ?r"
    by (rule page_rank_wf [OF assms(1) tv])
  moreover have "dict_keys ?r = dict_keys graph"
    using inv by simp
  ultimately show ?thesis by blast
qed

text \<open>
  The amended claim C2 at a graph with a dangling node and a duplicated link, damping 1/2,
  tolerance 1/64 and a budget of 3; all values are dyadic.
\<close>

theorem uniform_topic_pagerank_eq_page_rank_exact_witness:
  "wf_graph [(''A'', [''B'', ''B'']), (''B'', []), (''C'', [''A'', ''D'']), (''D'', [''C''])]
   \<and> topic_pagerank
        [(''A'', [''B'', ''B'']), (''B'', []), (''C'', [''A'', ''D'']), (''D'', [''C''])] ()
        [(''A'', 1 / 4), (''B'', 1 / 4), (''C'', 1 / 4), (''D'', 1 / 4)] (1 / 2) (1 / 64) 3
      = ([(''A'', [''B'', ''B'']), (''B'', []), (''C'', [''A'', ''D'']), (''D'', [''C''])],
         Inr [(''A'', 463 / 2048), (''B'', 561 / 2048), (''C'', 561 / 2048),
              (''D'', 463 / 2048)])
   \<and> page_rank
        [(''A'', [''B'', ''B'']), (''B'', []), (''C'', [''A'', ''D'']), (''D'', [''C''])]
        (1 / 2) 3 (1 / 64)
      = Inr [(''A'', 463 / 2048), (''B'', 561 / 2048), (''C'', 561 / 2048),
             (''D'', 463 / 2048)]"
proof -
  let ?g = "[(''A'', [''B'', ''B'']), (''B'', []), (''C'', [''A'', ''D'']), (''D'', [''C''])]"
  let ?tv = "[(''A'', 1 / 4), (''B'', 1 / 4), (''C'', 1 / 4), (''D'', 1 / 4 :: real)]"
  let ?res = "[(''A'', 463 / 2048), (''B'', 561 / 2048), (''C'', 561 / 2048),
               (''D'', 463 / 2048 :: real)]"
  have wf: "wf_graph ?g"
    by (simp add: wf_graph_def closed_graph_def dict_keys_def)
  have ne: "?g \<noteq> []" by simp
  have tv: "\<forall>p \<in> set (dict_keys ?g). dict_get ?tv p 0 = 1 / real (length ?g)"
    by (simp add: dict_keys_def dict_get_def)
  have classic: "page_rank ?g (1 / 2) 3 (1 / 64) = Inr ?res"
    by code_simp
  from uniform_topic_pagerank_eq_page_rank_exact [OF wf ne tv, of "()" "1 / 2" "1 / 64" 3]
  obtain ranks where t: "topic_pagerank ?g () ?tv (1 / 2) (1 / 64) 3 = (?g, Inr ranks)"
    and p: "page_rank ?g (1 / 2) 3 (1 / 64) = Inr ranks"
    by (elim exE conjE)
  from p classic have "ranks = ?res" by simp
  with t have "topic_pagerank ?g () ?tv (1 / 2) (1 / 64) 3 = (?g, Inr ?res)" by simp
  with wf classic show ?thesis by (intro conjI)
qed

subsection \<open>The final normalisation\<close>

lemma classic_run_doubles_small_tolerance:
  "page_rank_r round_double [(''A'', [''B'']), (''B'', [])]
     (round_double (85 / 100)) 2 (round_double (1 / 1000000))
   = Inr [(''A'', 3403032468431831 / 9007199254740992),
          (''B'', 700520848288645 / 1125899906842624)]"
  by (simp add: page_rank_r_def init_ranks_r_def dict_keys_def dict_getitem_def
        page_iteration_r_def dict_iadd_r_def abs_change_r_def Let_def eval_nat_numeral
        rd_facts)

text \<open>
  Claim C3, as stated: every solver normalises as its last step, so that the returned
  scores sum to exactly 1. \<^verbatim>\<open>page_rank\<close> has no normalisation step: in double precision,
  on the graph \<^verbatim>\<open>{'A': ['B'], 'B': []}\<close> with damping \<^verbatim>\<open>0.85\<close>, tolerance \<^verbatim>\<open>1e-6\<close> and
  a budget of 2, it returns the doubles 0.3778125 and 0.6221874999999999, whose sum is not
  1, neither exactly nor as Python's \<^verbatim>\<open>sum(ranks.values())\<close> computes it.
\<close>

theorem page_rank_sum_not_one_in_doubles:
  "page_rank_r round_double [(''A'', [''B'']), (''B'', [])]
     (round_double (85 / 100)) 2 (round_double (1 / 1000000))
   = Inr [(''A'', 3403032468431831 / 9007199254740992),
          (''B'', 700520848288645 / 1125899906842624)]
   \<and> (3403032468431831 / 9007199254740992 + 700520848288645 / 1125899906842624 :: real) \<noteq> 1
   \<and> foldl (\<lambda>acc v. round_double (acc + v)) 0
        (dict_values [(''A'', 3403032468431831 / 9007199254740992 :: real),
                      (''B'', 700520848288645 / 1125899906842624)]) \<noteq> 1"
  unfolding classic_run_doubles_small_tolerance
  by (simp add: dict_values_def rd_facts)

lemma sum_list_divide:
  "sum_list (map (\<lambda>(n, r). r / s) ranks) = sum_list (map snd ranks) / (s :: real)"
  by (induction ranks) (auto simp: add_divide_distrib)

text \<open>
  Claim C3, amended: of the two solvers only \<^verbatim>\<open>topic_pagerank\<close> normalises. For every
  graph whose link targets are keys and every teleportation vector (valid or not), its
  last step divides every rank the loop ended with by the sum \<open>s\<close> of these ranks whenever
  \<open>s > 0\<close>, and returns the result; with exact arithmetic the returned scores then sum to 1.
  For a non-empty graph and a vector whose weights sum to 1, \<open>s\<close> is 1. \<^verbatim>\<open>page_rank\<close>
  returns what its loop ends with, as it is.
\<close>

theorem topic_pagerank_normalises:
  assumes "wf_graph graph"
  shows "(\<exists>ranks returned.
      topic_loop (nat max_iter) (dict_keys graph) (out_degrees graph (dict_keys graph))
        topic_vector damping tol graph (init_ranks (dict_keys graph)) = (graph, Inr ranks)
    \<and> returned = (if 0 < sum_list (dict_values ranks)
                   then map (\<lambda>(n, r). (n, r / sum_list (dict_values ranks))) ranks
                   else ranks)
    \<and> topic_pagerank graph pages topic_vector damping tol max_iter = (graph, Inr returned)
    \<and> (0 < sum_list (dict_values ranks) \<longrightarrow> sum_list (dict_values returned) = 1)
    \<and> (graph \<noteq> [] \<and> (\<Sum>p\<leftarrow>dict_keys graph. dict_get topic_vector p 0) = 1
         \<longrightarrow> sum_list (dict_values ranks) = 1 \<and> sum_list (dict_values returned) = 1))
    \<and> page_rank graph damping max_iter tol
        = page_loop (nat max_iter) damping tol graph (init_ranks (dict_keys graph))"
proof -
  let ?init = "init_ranks (dict_keys graph)"
  let ?k = "iterations_run (nat max_iter) graph topic_vector damping tol ?init"
  let ?r = "(topic_step graph topic_vector damping ^^ ?k) ?init"
  let ?s = "sum_list (dict_values ?r)"
  let ?ret = "if 0 < ?s then map (\<lambda>(n, r). (n, r / ?s)) ?r else ?r"
  have ks: "set (dict_keys graph) \<subseteq> set (dict_keys ?init)"
    by (simp add: dict_keys_init_ranks)
  have loop: "topic_loop (nat max_iter) (dict_keys graph) (out_degrees graph (dict_keys graph))
          topic_vector damping tol graph ?init = (graph, Inr ?r)"
    by (rule topic_loop_wf [OF assms ks])
  have ret: "topic_pagerank graph pages topic_vector damping tol max_iter = (graph, Inr ?ret)"
    unfolding topic_pagerank_wf [OF assms] by (simp add: normalize_ranks_def Let_def)
  have pos: "0 < ?s \<longrightarrow> sum_list (dict_values ?ret) = 1"
    by (simp add: dict_values_def comp_def case_prod_unfold
          sum_list_divide [unfolded case_prod_unfold])
  have valid: "graph \<noteq> [] \<and> (\<Sum>p\<leftarrow>dict_keys graph. dict_get topic_vector p 0) = 1
         \<longrightarrow> ?s = 1 \<and> sum_list (dict_values ?ret) = 1"
  proof
    assume a: "graph \<noteq> [] \<and> (\<Sum>p\<leftarrow>dict_keys graph. dict_get topic_vector p 0) = 1"
    then have one: "(\<Sum>p\<leftarrow>dict_keys graph. rank_of topic_vector p) = 1"
      by (simp add: rank_of_def)
    from a have ne: "graph \<noteq> []" by simp
    from iterate_sum [OF assms ne one, where d = damping and k = ?k] have s: "?s = 1"
      by (simp add: ranks_sum_def)
    with pos show "?s = 1 \<and> sum_list (dict_values ?ret) = 1" by simp
  qed
  have classic: "page_rank graph damping max_iter tol
        = page_loop (nat max_iter) damping tol graph ?init"
    by (simp add: page_rank_def Let_def)
  from loop ret pos valid have "\<exists>ranks returned.
      topic_loop (nat max_iter) (dict_keys graph) (out_degrees graph (dict_keys graph))
        topic_vector damping tol graph ?init = (graph, Inr ranks)
    \<and> returned = (if 0 < sum_list (dict_values ranks)
                   then map (\<lambda>(n, r). (n, r / sum_list (dict_values ranks))) ranks
                   else ranks)
    \<and> topic_pagerank graph pages topic_vector damping tol max_iter = (graph, Inr returned)
    \<and> (0 < sum_list (dict_values ranks) \<longrightarrow> sum_list (dict_values returned) = 1)
    \<and> (graph \<noteq> [] \<and> (\<Sum>p\<leftarrow>dict_keys graph. dict_get topic_vector p 0) = 1
         \<longrightarrow> sum_list (dict_values ranks) = 1 \<and> sum_list (dict_values returned) = 1)"
    by blast
  with classic show ?thesis by (intro conjI)
qed

text \<open>
  The amended claim C3 on a run whose rank sum is not 1 before the normalisation: the
  weights 1 and 4 of the vector sum to 5, the loop ends with the ranks 3/4 and 13/4, and
  the solver returns them divided by 4.
\<close>

theorem topic_pagerank_normalises_witness:
  "wf_graph [(''A'', [''B'']), (''B'', [])]
   \<and> topic_loop (nat 1) (dict_keys [(''A'', [''B'']), (''B'', [])])
        (out_degrees [(''A'', [''B'']), (''B'', [])] (dict_keys [(''A'', [''B'']), (''B'', [])]))
        [(''A'', 1), (''B'', 4)] (1 / 2) (1 / 64) [(''A'', [''B'']), (''B'', [])]
        (init_ranks (dict_keys [(''A'', [''B'']), (''B'', [])]))
      = ([(''A'', [''B'']), (''B'', [])], Inr [(''A'', 3 / 4), (''B'', 13 / 4)])
   \<and> topic_pagerank [(''A'', [''B'']), (''B'', [])] () [(''A'', 1), (''B'', 4)]
        (1 / 2) (1 / 64) 1
      = ([(''A'', [''B'']), (''B'', [])], Inr [(''A'', 3 / 16), (''B'', 13 / 16)])
   \<and> sum_list (dict_values [(''A'', 3 / 16), (''B'', 13 / 16 :: real)]) = 1"
proof -
  let ?g = "[(''A'', [''B'']), (''B'', [])]"
  let ?tv = "[(''A'', 1), (''B'', 4 :: real)]"
  let ?loop = "topic_loop (nat 1) (dict_keys ?g) (out_degrees ?g (dict_keys ?g))
                 ?tv (1 / 2) (1 / 64) ?g (init_ranks (dict_keys ?g))"
  have wf: "wf_graph ?g"
    by (simp add: wf_graph_def closed_graph_def dict_keys_def)
  have run: "?loop = (?g, Inr [(''A'', 3 / 4), (''B'', 13 / 4)])"
    by code_simp
  from topic_pagerank_normalises [OF wf, of 1 ?tv "1 / 2" "1 / 64" "()", THEN conjunct1]
  obtain ranks returned where l: "?loop = (?g, Inr ranks)"
    and r: "returned = (if 0 < sum_list (dict_values ranks)
                   then map (\<lambda>(n, r). (n, r / sum_list (dict_values ranks))) ranks
                   else ranks)"
    and t: "topic_pagerank ?g () ?tv (1 / 2) (1 / 64) 1 = (?g, Inr returned)"
    and s: "0 < sum_list (dict_values ranks) \<longrightarrow> sum_list (dict_values returned) = 1"
    by (elim exE conjE)
  from l run have ranks: "ranks = [(''A'', 3 / 4), (''B'', 13 / 4)]" by simp
  with r have returned: "returned = [(''A'', 3 / 16), (''B'', 13 / 16)]"
    by (simp add: dict_values_def)
  from s ranks have "sum_list (dict_values returned) = 1"
    by (simp add: dict_values_def)
  with wf run t returned show ?thesis by simp
qed

subsection \<open>Termination within the iteration budget\<close>

text \<open>
  Claim C8: for every non-empty graph (link targets are keys), every teleportation vector
  whose weights over the nodes sum to 1, every damping, tolerance and iteration budget,
  both solvers return normally: the loops are bounded by \<^verbatim>\<open>range(max_iter)\<close>, which the
  model follows by structural recursion on the budget, and no exception is raised. What
  \<^verbatim>\<open>topic_pagerank\<close> returns is the rank vector its loop computed last, a mapping over
  the nodes of the graph, which is the vector after \<open>k\<close> iterations for some \<open>k\<close> not
  above the budget; the same holds of \<^verbatim>\<open>page_rank\<close>. When the L1 difference of no
  iteration falls below the tolerance, \<open>k\<close> is the whole budget. In particular this holds
  for a positive tolerance and a budget of at least 1.
\<close>

theorem solver_returns_last_vector_within_budget:
  assumes "wf_graph graph" and "graph \<noteq> []"
    and "(\<Sum>p\<leftarrow>dict_keys graph. dict_get topic_vector p 0) = 1"
  shows "(\<exists>k \<le> nat max_iter.
      topic_loop (nat max_iter) (dict_keys graph) (out_degrees graph (dict_keys graph))
        topic_vector damping tol graph (init_ranks (dict_keys graph))
        = (graph, Inr ((topic_step graph topic_vector damping ^^ k)
                         (init_ranks (dict_keys graph))))
    \<and> topic_pagerank graph pages topic_vector damping tol max_iter
        = (graph, Inr ((topic_step graph topic_vector damping ^^ k)
                         (init_ranks (dict_keys graph))))
    \<and> dict_keys ((topic_step graph topic_vector damping ^^ k) (init_ranks (dict_keys graph)))
        = dict_keys graph
    \<and> ((\<forall>j < nat max_iter.
           \<not> l1_diff (dict_keys graph)
                ((topic_step graph topic_vector damping ^^ Suc j) (init_ranks (dict_keys graph)))
                ((topic_step graph topic_vector damping ^^ j) (init_ranks (dict_keys graph))) < tol)
         \<longrightarrow> k = nat max_iter))
   \<and> (\<exists>k \<le> nat max_iter.
      page_loop (nat max_iter) damping tol graph (init_ranks (dict_keys graph))
        = Inr ((topic_step graph (init_ranks (dict_keys graph)) damping ^^ k)
                 (init_ranks (dict_keys graph)))
    \<and> page_rank graph damping max_iter tol
        = Inr ((topic_step graph (init_ranks (dict_keys graph)) damping ^^ k)
                 (init_ranks (dict_keys graph)))
    \<and> dict_keys ((topic_step graph (init_ranks (dict_keys graph)) damping ^^ k)
                   (init_ranks (dict_keys graph)))
        = dict_keys graph
    \<and> ((\<forall>j < nat max_iter.
           \<not> l1_diff (dict_keys graph)
                ((topic_step graph (init_ranks (dict_keys graph)) damping ^^ Suc j)
                   (init_ranks (dict_keys graph)))
                ((topic_step graph (init_ranks (dict_keys graph)) damping ^^ j)
                   (init_ranks (dict_keys graph))) < tol)
         \<longrightarrow> k = nat max_iter))"
proof (rule conjI)
  let ?init = "init_ranks (dict_keys graph)"
  let ?k = "iterations_run (nat max_iter) graph topic_vector damping tol ?init"
  from assms(3) have one: "(\<Sum>p\<leftarrow>dict_keys graph. rank_of topic_vector p) = 1"
    by (simp add: rank_of_def)
  note inv = iterate_sum [OF assms(1,2) one, where d = damping and k = ?k]
  have ks: "set (dict_keys graph) \<subseteq> set (dict_keys ?init)"
    by (simp add: dict_keys_init_ranks)
  show "\<exists>k \<le> nat max_iter.
      topic_loop (nat max_iter) (dict_keys graph) (out_degrees graph (dict_keys graph))
        topic_vector damping tol graph ?init
        = (graph, Inr ((topic_step graph topic_vector damping ^^ k) ?init))
    \<and> topic_pagerank graph pages topic_vector damping tol max_iter
        = (graph, Inr ((topic_step graph topic_vector damping ^^ k) ?init))
    \<and> dict_keys ((topic_step graph topic_vector damping ^^ k) ?init) = dict_keys graph
    \<and> ((\<forall>j < nat max_iter.
           \<not> l1_diff (dict_keys graph)
                ((topic_step graph topic_vector damping ^^ Suc j) ?init)
                ((topic_step graph topic_vector damping ^^ j) ?init) < tol)
         \<longrightarrow> k = nat max_iter)"
  proof (intro exI [of _ ?k] conjI impI)
    show "?k \<le> nat max_iter"
      by (rule iterations_run_le)
    show "topic_loop (nat max_iter) (dict_keys graph) (out_degrees graph (dict_keys graph))
        topic_vector damping tol graph ?init
        = (graph, Inr ((topic_step graph topic_vector damping ^^ ?k) ?init))"
      by (rule topic_loop_wf [OF assms(1) ks])
    show "topic_pagerank graph pages topic_vector damping tol max_iter
        = (graph, Inr ((topic_step graph topic_vector damping ^^ ?k) ?init))"
      unfolding topic_pagerank_wf [OF assms(1)]
      using inv by (simp add: normalize_ranks_unit)
    show "dict_keys ((topic_step graph topic_vector damping ^^ ?k) ?init) = dict_keys graph"
      using inv by simp
    assume "\<forall>j < nat max_iter.
           \<not> l1_diff (dict_keys graph)
                ((topic_step graph topic_vector damping ^^ Suc j) ?init)
                ((topic_step graph topic_vector damping ^^ j) ?init) < tol"
    then show "?k = nat max_iter"
      by (intro iterations_run_no_convergence) blast
  qed
next
  let ?init = "init_ranks (dict_keys graph)"
  let ?k = "iterations_run (nat max_iter) graph ?init damping tol ?init"
  have one: "(\<Sum>p\<leftarrow>dict_keys graph. rank_of ?init p) = 1"
    by (rule uniform_sum [OF assms(2) init_ranks_uniform])
  note inv = iterate_sum [OF assms(1,2) one, where d = damping and k = ?k]
  have ks: "set (dict_keys graph) \<subseteq> set (dict_keys ?init)"
    by (simp add: dict_keys_init_ranks)
  show "\<exists>k \<le> nat max_iter.
      page_loop (nat max_iter) damping tol graph ?init
        = Inr ((topic_step graph ?init damping ^^ k) ?init)
    \<and> page_rank graph damping max_iter tol
        = Inr ((topic_step graph ?init damping ^^ k) ?init)
    \<and> dict_keys ((topic_step graph ?init damping ^^ k) ?init) = dict_keys graph
    \<and> ((\<forall>j < nat max_iter.
           \<not> l1_diff (dict_keys graph)
                ((topic_step graph ?init damping ^^ Suc j) ?init)
                ((topic_step graph ?init damping ^^ j) ?init) < tol)
         \<longrightarrow> k = nat max_iter)"
  proof (intro exI [of _ ?k] conjI impI)
    show "?k \<le> nat max_iter"
      by (rule iterations_run_le)
    show "page_loop (nat max_iter) damping tol graph ?init
        = Inr ((topic_step graph ?init damping ^^ ?k) ?init)"
      by (rule page_loop_wf [OF assms(1) init_ranks_uniform ks])
    show "page_rank graph damping max_iter tol
        = Inr ((topic_step graph ?init damping ^^ ?k) ?init)"
      by (rule page_rank_wf [OF assms(1) init_ranks_uniform])
    show "dict_keys ((topic_step graph ?init damping ^^ ?k) ?init) = dict_keys graph"
      using inv by simp
    assume "\<forall>j < nat max_iter.
           \<not> l1_diff (dict_keys graph)
                ((topic_step graph ?init damping ^^ Suc j) ?init)
                ((topic_step graph ?init damping ^^ j) ?init) < tol"
    then show "?k = nat max_iter"
      by (intro iterations_run_no_convergence) blast
  qed
qed

text \<open>
  Claim C8 on a run of two iterations, neither of which reaches the tolerance 1/64 (the
  differences are 3/8 and 23/128): the solver returns the rank vector of the second
  iteration. All values are dyadic.
\<close>

theorem solver_returns_last_vector_within_budget_witness:
  "wf_graph [(''A'', [''B'', ''B'']), (''B'', []), (''C'', [''A'', ''D'']), (''D'', [''C''])]
   \<and> (\<Sum>p\<leftarrow>dict_keys
          [(''A'', [''B'', ''B'']), (''B'', []), (''C'', [''A'', ''D'']), (''D'', [''C''])].
        dict_get [(''A'', 1 / 2), (''B'', 1 / 4), (''C'', 1 / 4), (''D'', 0)] p 0) = (1 :: real)
   \<and> topic_pagerank
        [(''A'', [''B'', ''B'']), (''B'', []), (''C'', [''A'', ''D'']), (''D'', [''C''])] ()
        [(''A'', 1 / 2), (''B'', 1 / 4), (''C'', 1 / 4), (''D'', 0)] (1 / 2) (1 / 64) 2
      = ([(''A'', [''B'', ''B'']), (''B'', []), (''C'', [''A'', ''D'']), (''D'', [''C''])],
         Inr [(''A'', 25 / 64), (''B'', 89 / 256), (''C'', 49 / 256), (''D'', 9 / 128)])"
proof -
  let ?g = "[(''A'', [''B'', ''B'']), (''B'', []), (''C'', [''A'', ''D'']), (''D'', [''C''])]"
  let ?tv = "[(''A'', 1 / 2), (''B'', 1 / 4), (''C'', 1 / 4), (''D'', 0 :: real)]"
  let ?it = "\<lambda>j. (topic_step ?g ?tv (1 / 2) ^^ j) (init_ranks (dict_keys ?g))"
  have wf: "wf_graph ?g"
    by (simp add: wf_graph_def closed_graph_def dict_keys_def)
  have ne: "?g \<noteq> []" by simp
  have tv: "(\<Sum>p\<leftarrow>dict_keys ?g. dict_get ?tv p 0) = 1"
    by (simp add: dict_keys_def dict_get_def)
  have d0: "\<not> l1_diff (dict_keys ?g) (?it (Suc 0)) (?it 0) < 1 / 64"
    by code_simp
  have d1: "\<not> l1_diff (dict_keys ?g) (?it (Suc (Suc 0))) (?it (Suc 0)) < 1 / 64"
    by code_simp
  have never: "\<forall>j < nat 2. \<not> l1_diff (dict_keys ?g) (?it (Suc j)) (?it j) < 1 / 64"
  proof (intro allI impI)
    fix j :: nat assume "j < nat 2"
    then have "j = 0 \<or> j = Suc 0" by auto
    with d0 d1 show "\<not> l1_diff (dict_keys ?g) (?it (Suc j)) (?it j) < 1 / 64" by auto
  qed
  have second: "?it 2 = [(''A'', 25 / 64), (''B'', 89 / 256), (''C'', 49 / 256), (''D'', 9 / 128)]"
    by code_simp
  from solver_returns_last_vector_within_budget
         [OF wf ne tv, THEN conjunct1, of 2 "1 / 2" "1 / 64" "()"]
  obtain k where "topic_pagerank ?g () ?tv (1 / 2) (1 / 64) 2 = (?g, Inr (?it k))"
    and "(\<forall>j < nat 2. \<not> l1_diff (dict_keys ?g) (?it (Suc j)) (?it j) < 1 / 64) \<longrightarrow> k = nat 2"
    by (elim exE conjE)
  with never have "topic_pagerank ?g () ?tv (1 / 2) (1 / 64) 2 = (?g, Inr (?it 2))"
    by simp
  with second have "topic_pagerank ?g () ?tv (1 / 2) (1 / 64) 2
      = (?g, Inr [(''A'', 25 / 64), (''B'', 89 / 256), (''C'', 49 / 256), (''D'', 9 / 128)])"
    by simp
  with wf tv show ?thesis by (intro conjI)
qed

end
